theory Spec2Isabelle
  imports Main "HOL-Library.Word" "HOL-Library.Multiset"
begin

section \<open>Data model (main.go, lines 13-37)\<close>

text \<open>
  The counters of \<open>TransferFiles\<close> are Go \<open>int32\<close> values updated with
  \<open>atomic.AddInt32\<close>, which wraps around; they are 32-bit words here and are read as
  signed numbers with \<open>sint\<close>. The three fields of \<open>PipelineCfg\<close> are Go \<open>int\<close>
  values that the code only compares and passes to \<open>make\<close>; they are integers here.
\<close>

type_synonym int32 = "32 word"
type_synonym bytes = "8 word list"
type_synonym error = string

record FileJob =
  RemotePath :: string
  ID :: string

record FileResult =
  ID :: string
  Data :: bytes

text \<open>\<open>ProcessFunc\<close> returns a Go \<open>error\<close>: \<open>None\<close> is \<open>nil\<close>.\<close>

type_synonym ProcessFunc = "FileResult \<Rightarrow> error option"

record PipelineCfg =
  SFTPReaders :: int
  Workers :: int
  BufferSize :: int

definition DefaultCfg :: PipelineCfg where
  "DefaultCfg = \<lparr>SFTPReaders = 80, Workers = 10, BufferSize = 10\<rparr>"

text \<open>
  What \<open>TransferFiles\<close> uses of the Go runtime, which is not part of the repository:
  the size in bytes of a pointer (and of an \<open>int\<close>), the largest allocation that the
  runtime admits (\<open>maxAlloc\<close>, runtime/malloc.go) and the size of the header of a
  channel (\<open>hchanSize\<close>, runtime/chan.go). They depend on the platform and on the
  version of Go, and are parameters of the pipeline here.
\<close>

record Runtime =
  wordSize :: nat
  maxAlloc :: int
  hchanSize :: int

text \<open>
  A 64-bit runtime, for the examples: 48 address bits and a channel header of 96 bytes.
  The header differs by a few words between versions of Go; the channels of the examples
  are far smaller than the limit.
\<close>

definition runtime64 :: Runtime where
  "runtime64 = \<lparr>wordSize = 8, maxAlloc = 2 ^ 48, hchanSize = 96\<rparr>"

text \<open>
  The size of the elements of the two channels: a string is two words (pointer and
  length), a byte slice is three (pointer, length and capacity).
\<close>

definition sizeof_FileJob :: "Runtime \<Rightarrow> int" where
  "sizeof_FileJob rt = 4 * int (wordSize rt)"

definition sizeof_FileResult :: "Runtime \<Rightarrow> int" where
  "sizeof_FileResult rt = 5 * int (wordSize rt)"

text \<open>
  \<open>make(chan T, n)\<close> panics with \<open>makechan: size out of range\<close> when the size of
  the buffer, \<open>n\<close> elements, overflows a \<open>uintptr\<close>, when it is more than the runtime
  can allocate next to the header, and when \<open>n\<close> is negative (\<open>makechan\<close> in
  runtime/chan.go: \<open>overflow || mem > maxAlloc-hchanSize || size < 0\<close>).
\<close>

definition makechan_panics :: "Runtime \<Rightarrow> int \<Rightarrow> int \<Rightarrow> bool" where
  "makechan_panics rt elemsize n \<longleftrightarrow>
     2 ^ (8 * wordSize rt) \<le> elemsize * n \<or>
     maxAlloc rt - hchanSize rt < elemsize * n \<or>
     n < 0"

text \<open>
  The counter of a \<open>sync.WaitGroup\<close> is an \<open>int32\<close>. \<open>Add\<close> panics when the counter
  becomes negative; \<open>Add(1)\<close> makes it so, by wrap-around, when the counter is
  \<open>maxInt32\<close>.
\<close>

definition maxInt32 :: int where
  "maxInt32 = 2147483647"

text \<open>
  The transfer capability is a parameter of the pipeline: \<open>Open\<close> is the client's method
  (\<open>sftpClient.Open\<close> in main.go, the interface method in main_test.go) and \<open>ReadAll\<close> is
  what \<open>io.ReadAll\<close> yields on the handle that \<open>Open\<close> returned; \<open>'f\<close> is the type of
  handles. Both are functions of their argument, as the processing function is: a call
  returns, with an error or with a value, and the same argument gives the same outcome.
\<close>

record 'f Client =
  Open :: "string \<Rightarrow> error + 'f"
  ReadAll :: "'f \<Rightarrow> error + bytes"

text \<open>
  The client of main_test.go (lines 13-23): a map from paths to contents; the handle is
  a reader over the stored bytes, which \<open>io.ReadAll\<close> reads to the end without error.
\<close>

definition mockSFTPClient :: "(string \<rightharpoonup> bytes) \<Rightarrow> bytes Client" where
  "mockSFTPClient files =
     \<lparr>Open = (\<lambda>path. case files path of
                 None \<Rightarrow> Inl (''file not found: '' @ path)
               | Some data \<Rightarrow> Inr data),
      ReadAll = Inr\<rparr>"

section \<open>Goroutines and shared state of TransferFiles (main.go, lines 39-99)\<close>

text \<open>
  Every goroutine of \<open>TransferFiles\<close> is a program counter that names the statement it
  executes next, together with the values of its local variables. One step of one
  goroutine executes that statement; a step that would block in Go is not enabled.

  The feeder (lines 45-50) sends the jobs it has left and then closes \<open>jobsChan\<close>.
\<close>

datatype feeder_pc =
    F_Loop "FileJob list"
  | F_Done

text \<open>
  A fetch worker (lines 55-71): at the \<open>range\<close> over \<open>jobsChan\<close> (line 57), about to call
  \<open>Open\<close> (line 58), about to call \<open>io.ReadAll\<close> and close the handle (lines 63-64), about
  to count a failure (lines 60 and 66), about to send its result (line 69), or gone
  (after the deferred \<open>readWg.Done\<close>).
\<close>

datatype 'f reader_pc =
    R_Range
  | R_Open FileJob
  | R_Read FileJob 'f
  | R_Fail
  | R_Send FileResult
  | R_Done

text \<open>The goroutine of lines 74-77: \<open>readWg.Wait()\<close>, then \<open>close(resultsChan)\<close>.\<close>

datatype sentinel_pc =
    S_Wait
  | S_Close
  | S_Done

text \<open>
  A process worker (lines 82-91): at the \<open>range\<close> over \<open>resultsChan\<close> (line 84), about to
  call \<open>processFunc\<close> (line 85), about to increment \<open>failed\<close> (line 86) or \<open>transferred\<close>
  (line 88), or gone.
\<close>

datatype proc_pc =
    P_Range
  | P_Call FileResult
  | P_IncFailed
  | P_IncTransferred
  | P_Done

text \<open>
  The calling goroutine: about to start the feeder (line 45), at the head of the first
  loop with its counter (line 53), between \<open>readWg.Add(1)\<close> and the \<open>go\<close> statement
  (lines 54-55), about to start the goroutine of line 74, the same for the second loop
  (lines 80-82), at \<open>processWg.Wait()\<close> (line 94), and returned with its two results.
\<close>

datatype main_pc =
    M_GoFeeder
  | M_ReadLoop int
  | M_ReadGo int
  | M_GoSentinel
  | M_ProcLoop int
  | M_ProcGo int
  | M_Wait
  | M_Returned int32 int32

text \<open>
  The shared state: the two channels (a buffer, and for \<open>resultsChan\<close> the number of times
  it was closed), the two wait-group counters, the two counters, and whether some goroutine
  has panicked (which ends the program). \<open>opened\<close> and \<open>processed\<close> record the calls made
  to the capability and to the processing function, latest first.
\<close>

record 'f state =
  mainpc :: main_pc
  feeder :: "feeder_pc option"
  readers :: "'f reader_pc list"
  sentinel :: "sentinel_pc option"
  procs :: "proc_pc list"
  jobsChan :: "FileJob list"
  jobsClosed :: bool
  resultsChan :: "FileResult list"
  resultsCloses :: nat
  readWg :: int
  processWg :: int
  transferred :: int32
  failed :: int32
  opened :: "string list"
  processed :: "FileResult list"
  panicked :: bool

text \<open>
  Lines 41-42: \<open>make(chan FileJob, len(jobs))\<close> and
  \<open>make(chan FileResult, cfg.BufferSize)\<close>. The call panics there, before it has started
  any goroutine, unless both succeed.
\<close>

definition makes_succeed :: "Runtime \<Rightarrow> PipelineCfg \<Rightarrow> FileJob list \<Rightarrow> bool" where
  "makes_succeed rt cfg jobs \<longleftrightarrow>
     \<not> makechan_panics rt (sizeof_FileJob rt) (int (length jobs)) \<and>
     \<not> makechan_panics rt (sizeof_FileResult rt) (BufferSize cfg)"

definition TransferFiles_init :: "Runtime \<Rightarrow> PipelineCfg \<Rightarrow> FileJob list \<Rightarrow> 'f state" where
  "TransferFiles_init rt cfg jobs =
     \<lparr>mainpc = M_GoFeeder, feeder = None, readers = [], sentinel = None, procs = [],
      jobsChan = [], jobsClosed = False, resultsChan = [], resultsCloses = 0,
      readWg = 0, processWg = 0, transferred = 0, failed = 0,
      opened = [], processed = [], panicked = (\<not> makes_succeed rt cfg jobs)\<rparr>"

definition panic :: "'f state \<Rightarrow> 'f state" where
  "panic s = s\<lparr>panicked := True\<rparr>"

text \<open>\<open>WaitGroup.Done\<close> is \<open>Add(-1)\<close>: it panics when the counter becomes negative.\<close>

definition readWg_Done :: "'f state \<Rightarrow> 'f state" where
  "readWg_Done s = (if readWg s - 1 < 0 then panic s else s\<lparr>readWg := readWg s - 1\<rparr>)"

definition processWg_Done :: "'f state \<Rightarrow> 'f state" where
  "processWg_Done s =
     (if processWg s - 1 < 0 then panic s else s\<lparr>processWg := processWg s - 1\<rparr>)"

text \<open>Lines 45-50. A send on a closed channel and a second \<open>close\<close> panic.\<close>

definition feeder_step :: "FileJob list \<Rightarrow> 'f state \<Rightarrow> 'f state option" where
  "feeder_step jobs s =
     (case feeder s of
        Some (F_Loop (job # rest)) \<Rightarrow>
          if jobsClosed s then Some (panic s)
          else if length (jobsChan s) < length jobs
          then Some (s\<lparr>jobsChan := jobsChan s @ [job], feeder := Some (F_Loop rest)\<rparr>)
          else None
      | Some (F_Loop []) \<Rightarrow>
          if jobsClosed s then Some (panic s)
          else Some (s\<lparr>jobsClosed := True, feeder := Some F_Done\<rparr>)
      | _ \<Rightarrow> None)"

text \<open>Lines 55-71, for the fetch worker at index \<open>i\<close>.\<close>

definition reader_step ::
  "'f Client \<Rightarrow> PipelineCfg \<Rightarrow> nat \<Rightarrow> 'f state \<Rightarrow> 'f state option" where
  "reader_step client cfg i s =
     (if length (readers s) \<le> i then None
      else case readers s ! i of
        R_Range \<Rightarrow>
          (case jobsChan s of
             job # rest \<Rightarrow>
               Some (s\<lparr>jobsChan := rest, readers := (readers s)[i := R_Open job]\<rparr>)
           | [] \<Rightarrow>
               if jobsClosed s
               then Some (readWg_Done (s\<lparr>readers := (readers s)[i := R_Done]\<rparr>))
               else None)
      | R_Open job \<Rightarrow>
          (case Open client (RemotePath job) of
             Inl err \<Rightarrow>
               Some (s\<lparr>opened := RemotePath job # opened s,
                       readers := (readers s)[i := R_Fail]\<rparr>)
           | Inr f \<Rightarrow>
               Some (s\<lparr>opened := RemotePath job # opened s,
                       readers := (readers s)[i := R_Read job f]\<rparr>))
      | R_Read job f \<Rightarrow>
          (case ReadAll client f of
             Inl err \<Rightarrow> Some (s\<lparr>readers := (readers s)[i := R_Fail]\<rparr>)
           | Inr data \<Rightarrow>
               Some (s\<lparr>readers := (readers s)
                         [i := R_Send \<lparr>FileResult.ID = FileJob.ID job, Data = data\<rparr>]\<rparr>))
      | R_Fail \<Rightarrow>
          Some (s\<lparr>failed := failed s + 1, readers := (readers s)[i := R_Range]\<rparr>)
      | R_Send result \<Rightarrow>
          if 0 < resultsCloses s then Some (panic s)
          else if int (length (resultsChan s)) < BufferSize cfg
          then Some (s\<lparr>resultsChan := resultsChan s @ [result],
                       readers := (readers s)[i := R_Range]\<rparr>)
          else None
      | R_Done \<Rightarrow> None)"

text \<open>
  A send of fetch worker \<open>i\<close> (line 69) that meets process worker \<open>k\<close> waiting at its
  receive (line 84) on the empty channel: the value is handed over directly. This is the
  only way a send completes on an unbuffered channel (\<open>BufferSize = 0\<close>).
\<close>

definition handoff_step :: "nat \<Rightarrow> nat \<Rightarrow> 'f state \<Rightarrow> 'f state option" where
  "handoff_step i k s =
     (if length (readers s) \<le> i \<or> length (procs s) \<le> k then None
      else case (readers s ! i, procs s ! k) of
        (R_Send result, P_Range) \<Rightarrow>
          if resultsChan s = [] \<and> resultsCloses s = 0
          then Some (s\<lparr>readers := (readers s)[i := R_Range],
                       procs := (procs s)[k := P_Call result]\<rparr>)
          else None
      | _ \<Rightarrow> None)"

text \<open>Lines 74-77.\<close>

definition sentinel_step :: "'f state \<Rightarrow> 'f state option" where
  "sentinel_step s =
     (case sentinel s of
        Some S_Wait \<Rightarrow> if readWg s = 0 then Some (s\<lparr>sentinel := Some S_Close\<rparr>) else None
      | Some S_Close \<Rightarrow>
          if 0 < resultsCloses s then Some (panic s)
          else Some (s\<lparr>resultsCloses := resultsCloses s + 1, sentinel := Some S_Done\<rparr>)
      | _ \<Rightarrow> None)"

text \<open>Lines 82-91, for the process worker at index \<open>k\<close>.\<close>

definition proc_step :: "ProcessFunc \<Rightarrow> nat \<Rightarrow> 'f state \<Rightarrow> 'f state option" where
  "proc_step processFunc k s =
     (if length (procs s) \<le> k then None
      else case procs s ! k of
        P_Range \<Rightarrow>
          (case resultsChan s of
             result # rest \<Rightarrow>
               Some (s\<lparr>resultsChan := rest, procs := (procs s)[k := P_Call result]\<rparr>)
           | [] \<Rightarrow>
               if 0 < resultsCloses s
               then Some (processWg_Done (s\<lparr>procs := (procs s)[k := P_Done]\<rparr>))
               else None)
      | P_Call result \<Rightarrow>
          (case processFunc result of
             Some err \<Rightarrow>
               Some (s\<lparr>processed := result # processed s,
                       procs := (procs s)[k := P_IncFailed]\<rparr>)
           | None \<Rightarrow>
               Some (s\<lparr>processed := result # processed s,
                       procs := (procs s)[k := P_IncTransferred]\<rparr>))
      | P_IncFailed \<Rightarrow>
          Some (s\<lparr>failed := failed s + 1, procs := (procs s)[k := P_Range]\<rparr>)
      | P_IncTransferred \<Rightarrow>
          Some (s\<lparr>transferred := transferred s + 1, procs := (procs s)[k := P_Range]\<rparr>)
      | P_Done \<Rightarrow> None)"

text \<open>
  The calling goroutine of main.go: lines 45, 53-55, 74, 80-82, 94 and 98. \<open>Add(1)\<close>
  (lines 54 and 81) panics when the counter is \<open>maxInt32\<close>. The value returned is what
  the two counters hold when \<open>processWg.Wait()\<close> has returned; the step of \<open>M_Wait\<close>
  is enabled whenever the counter of \<open>processWg\<close> is zero, so the counters are read in
  any state in which the call can be past line 94.
\<close>

definition main_step :: "PipelineCfg \<Rightarrow> FileJob list \<Rightarrow> 'f state \<Rightarrow> 'f state option" where
  "main_step cfg jobs s =
     (case mainpc s of
        M_GoFeeder \<Rightarrow> Some (s\<lparr>feeder := Some (F_Loop jobs), mainpc := M_ReadLoop 0\<rparr>)
      | M_ReadLoop i \<Rightarrow>
          if i < SFTPReaders cfg
          then if maxInt32 < readWg s + 1 then Some (panic s)
               else Some (s\<lparr>readWg := readWg s + 1, mainpc := M_ReadGo i\<rparr>)
          else Some (s\<lparr>mainpc := M_GoSentinel\<rparr>)
      | M_ReadGo i \<Rightarrow>
          Some (s\<lparr>readers := readers s @ [R_Range], mainpc := M_ReadLoop (i + 1)\<rparr>)
      | M_GoSentinel \<Rightarrow> Some (s\<lparr>sentinel := Some S_Wait, mainpc := M_ProcLoop 0\<rparr>)
      | M_ProcLoop i \<Rightarrow>
          if i < Workers cfg
          then if maxInt32 < processWg s + 1 then Some (panic s)
               else Some (s\<lparr>processWg := processWg s + 1, mainpc := M_ProcGo i\<rparr>)
          else Some (s\<lparr>mainpc := M_Wait\<rparr>)
      | M_ProcGo i \<Rightarrow>
          Some (s\<lparr>procs := procs s @ [P_Range], mainpc := M_ProcLoop (i + 1)\<rparr>)
      | M_Wait \<Rightarrow>
          if processWg s = 0
          then Some (s\<lparr>mainpc := M_Returned (transferred s) (failed s)\<rparr>)
          else None
      | M_Returned t f \<Rightarrow> None)"

text \<open>
  The calling goroutine of \<open>TransferFilesMock\<close> (main_test.go, lines 114-177): the same
  statements, except that each loop body is one call of \<open>WaitGroup.Go\<close> (lines 133 and
  160), which calls \<open>Add(1)\<close> and starts the goroutine.
\<close>

definition mock_main_step ::
  "PipelineCfg \<Rightarrow> FileJob list \<Rightarrow> 'f state \<Rightarrow> 'f state option" where
  "mock_main_step cfg jobs s =
     (case mainpc s of
        M_GoFeeder \<Rightarrow> Some (s\<lparr>feeder := Some (F_Loop jobs), mainpc := M_ReadLoop 0\<rparr>)
      | M_ReadLoop i \<Rightarrow>
          if i < SFTPReaders cfg
          then if maxInt32 < readWg s + 1 then Some (panic s)
               else Some (s\<lparr>readWg := readWg s + 1, readers := readers s @ [R_Range],
                            mainpc := M_ReadLoop (i + 1)\<rparr>)
          else Some (s\<lparr>mainpc := M_GoSentinel\<rparr>)
      | M_GoSentinel \<Rightarrow> Some (s\<lparr>sentinel := Some S_Wait, mainpc := M_ProcLoop 0\<rparr>)
      | M_ProcLoop i \<Rightarrow>
          if i < Workers cfg
          then if maxInt32 < processWg s + 1 then Some (panic s)
               else Some (s\<lparr>processWg := processWg s + 1, procs := procs s @ [P_Range],
                            mainpc := M_ProcLoop (i + 1)\<rparr>)
          else Some (s\<lparr>mainpc := M_Wait\<rparr>)
      | M_Wait \<Rightarrow>
          if processWg s = 0
          then Some (s\<lparr>mainpc := M_Returned (transferred s) (failed s)\<rparr>)
          else None
      | _ \<Rightarrow> None)"

section \<open>Schedules\<close>

text \<open>
  The scheduler picks which goroutine takes the next step. A schedule is the list of its
  picks; a pick of a goroutine that is blocked or gone, or any pick after a panic, is not
  a run of the program.
\<close>

datatype action =
    Main
  | Feeder
  | Reader nat
  | Handoff nat nat
  | Sentinel
  | Proc nat

definition worker_step ::
  "'f Client \<Rightarrow> ProcessFunc \<Rightarrow> PipelineCfg \<Rightarrow> FileJob list \<Rightarrow> action \<Rightarrow> 'f state
   \<Rightarrow> 'f state option" where
  "worker_step client processFunc cfg jobs a s =
     (case a of
        Main \<Rightarrow> None
      | Feeder \<Rightarrow> feeder_step jobs s
      | Reader i \<Rightarrow> reader_step client cfg i s
      | Handoff i k \<Rightarrow> handoff_step i k s
      | Sentinel \<Rightarrow> sentinel_step s
      | Proc k \<Rightarrow> proc_step processFunc k s)"

definition fire ::
  "'f Client \<Rightarrow> ProcessFunc \<Rightarrow> PipelineCfg \<Rightarrow> FileJob list \<Rightarrow> action \<Rightarrow> 'f state
   \<Rightarrow> 'f state option" where
  "fire client processFunc cfg jobs a s =
     (if panicked s then None
      else case a of
        Main \<Rightarrow> main_step cfg jobs s
      | _ \<Rightarrow> worker_step client processFunc cfg jobs a s)"

definition mock_fire ::
  "'f Client \<Rightarrow> ProcessFunc \<Rightarrow> PipelineCfg \<Rightarrow> FileJob list \<Rightarrow> action \<Rightarrow> 'f state
   \<Rightarrow> 'f state option" where
  "mock_fire client processFunc cfg jobs a s =
     (if panicked s then None
      else case a of
        Main \<Rightarrow> mock_main_step cfg jobs s
      | _ \<Rightarrow> worker_step client processFunc cfg jobs a s)"

fun exec :: "(action \<Rightarrow> 'f state \<Rightarrow> 'f state option) \<Rightarrow> action list \<Rightarrow> 'f state
             \<Rightarrow> 'f state option" where
  "exec step [] s = Some s"
| "exec step (a # sched) s =
     (case step a s of None \<Rightarrow> None | Some s' \<Rightarrow> exec step sched s')"

text \<open>
  \<open>TransferFiles\<close> under a schedule: the state reached, if the schedule is a run. The
  call has returned \<open>(transferred, failed)\<close> in a state whose \<open>mainpc\<close> is
  \<open>M_Returned transferred failed\<close>.
\<close>

definition TransferFiles ::
  "Runtime \<Rightarrow> PipelineCfg \<Rightarrow> 'f Client \<Rightarrow> FileJob list \<Rightarrow> ProcessFunc \<Rightarrow> action list
   \<Rightarrow> 'f state option" where
  "TransferFiles rt cfg client jobs processFunc sched =
     exec (fire client processFunc cfg jobs) sched (TransferFiles_init rt cfg jobs)"

definition TransferFilesMock ::
  "Runtime \<Rightarrow> PipelineCfg \<Rightarrow> 'f Client \<Rightarrow> FileJob list \<Rightarrow> ProcessFunc \<Rightarrow> action list
   \<Rightarrow> 'f state option" where
  "TransferFilesMock rt cfg client jobs processFunc sched =
     exec (mock_fire client processFunc cfg jobs) sched (TransferFiles_init rt cfg jobs)"

section \<open>Invariants of a run\<close>

subsection \<open>Sums over the goroutines and the channel buffers\<close>

text \<open>
  \<open>tally g xs\<close> adds \<open>g x\<close> over a list; \<open>tally_except g i xs\<close> leaves the element at
  index \<open>i\<close> out. A step of worker \<open>i\<close> changes only the term of that worker.
\<close>

definition tally :: "('a \<Rightarrow> 'm::comm_monoid_add) \<Rightarrow> 'a list \<Rightarrow> 'm" where
  "tally g xs = sum_list (map g xs)"

definition tally_except :: "('a \<Rightarrow> 'm::comm_monoid_add) \<Rightarrow> nat \<Rightarrow> 'a list \<Rightarrow> 'm" where
  "tally_except g i xs = tally g (take i xs) + tally g (drop (Suc i) xs)"

subsection \<open>Where the calling goroutine is\<close>

text \<open>
  What the program counter of the calling goroutine says about the state: how many
  fetch and process workers it has started, that its loop counters are in range, whether
  it has called \<open>Add\<close> for a worker it has not started yet, and which of the other
  goroutines it has started.
\<close>

fun rd_spawned :: "PipelineCfg \<Rightarrow> main_pc \<Rightarrow> int" where
  "rd_spawned cfg M_GoFeeder = 0"
| "rd_spawned cfg (M_ReadLoop i) = i"
| "rd_spawned cfg (M_ReadGo i) = i"
| "rd_spawned cfg _ = max 0 (SFTPReaders cfg)"

fun pr_spawned :: "PipelineCfg \<Rightarrow> main_pc \<Rightarrow> int" where
  "pr_spawned cfg (M_ProcLoop i) = i"
| "pr_spawned cfg (M_ProcGo i) = i"
| "pr_spawned cfg M_Wait = max 0 (Workers cfg)"
| "pr_spawned cfg (M_Returned t f) = max 0 (Workers cfg)"
| "pr_spawned cfg _ = 0"

fun main_ok :: "PipelineCfg \<Rightarrow> main_pc \<Rightarrow> bool" where
  "main_ok cfg (M_ReadLoop i) \<longleftrightarrow> 0 \<le> i \<and> i \<le> max 0 (SFTPReaders cfg)"
| "main_ok cfg (M_ReadGo i) \<longleftrightarrow> 0 \<le> i \<and> i < SFTPReaders cfg"
| "main_ok cfg (M_ProcLoop i) \<longleftrightarrow> 0 \<le> i \<and> i \<le> max 0 (Workers cfg)"
| "main_ok cfg (M_ProcGo i) \<longleftrightarrow> 0 \<le> i \<and> i < Workers cfg"
| "main_ok cfg _ \<longleftrightarrow> True"

fun rd_added :: "main_pc \<Rightarrow> int" where
  "rd_added (M_ReadGo i) = 1"
| "rd_added _ = 0"

fun pr_added :: "main_pc \<Rightarrow> int" where
  "pr_added (M_ProcGo i) = 1"
| "pr_added _ = 0"

fun feeder_started :: "main_pc \<Rightarrow> bool" where
  "feeder_started M_GoFeeder \<longleftrightarrow> False"
| "feeder_started _ \<longleftrightarrow> True"

fun sentinel_started :: "main_pc \<Rightarrow> bool" where
  "sentinel_started (M_ProcLoop i) \<longleftrightarrow> True"
| "sentinel_started (M_ProcGo i) \<longleftrightarrow> True"
| "sentinel_started M_Wait \<longleftrightarrow> True"
| "sentinel_started (M_Returned t f) \<longleftrightarrow> True"
| "sentinel_started _ \<longleftrightarrow> False"

fun has_returned :: "main_pc \<Rightarrow> bool" where
  "has_returned (M_Returned t f) \<longleftrightarrow> True"
| "has_returned _ \<longleftrightarrow> False"

text \<open>A worker counts in its wait group until it is gone.\<close>

fun reader_live :: "'f reader_pc \<Rightarrow> int" where
  "reader_live R_Done = 0"
| "reader_live _ = 1"

fun proc_live :: "proc_pc \<Rightarrow> int" where
  "proc_live P_Done = 0"
| "proc_live _ = 1"

text \<open>
  The goroutine of lines 74-77 is past \<open>readWg.Wait()\<close>; the number of times it has
  closed \<open>resultsChan\<close>.
\<close>

fun past_wait :: "sentinel_pc option \<Rightarrow> bool" where
  "past_wait (Some S_Close) \<longleftrightarrow> True"
| "past_wait (Some S_Done) \<longleftrightarrow> True"
| "past_wait _ \<longleftrightarrow> False"

fun closes_of :: "sentinel_pc option \<Rightarrow> nat" where
  "closes_of (Some S_Done) = 1"
| "closes_of _ = 0"

text \<open>The jobs that the feeder has not sent yet (all of them before it is started).\<close>

fun feeder_jobs :: "FileJob list \<Rightarrow> feeder_pc option \<Rightarrow> FileJob list" where
  "feeder_jobs jobs None = jobs"
| "feeder_jobs jobs (Some (F_Loop rest)) = rest"
| "feeder_jobs jobs (Some F_Done) = []"

subsection \<open>The invariant\<close>

text \<open>The goroutines that exist are those the calling goroutine has started.\<close>

definition inv_main :: "PipelineCfg \<Rightarrow> 'f state \<Rightarrow> bool" where
  "inv_main cfg s \<longleftrightarrow>
     main_ok cfg (mainpc s) \<and>
     (feeder s \<noteq> None) = feeder_started (mainpc s) \<and>
     (sentinel s \<noteq> None) = sentinel_started (mainpc s) \<and>
     int (length (readers s)) = rd_spawned cfg (mainpc s) \<and>
     int (length (procs s)) = pr_spawned cfg (mainpc s)"

text \<open>
  Each wait-group counter is the number of its workers that are not gone, plus one
  between \<open>Add(1)\<close> and the \<open>go\<close> statement, and fits an \<open>int32\<close>; once the call
  has returned, \<open>processWg\<close> is zero.
\<close>

definition inv_wg :: "'f state \<Rightarrow> bool" where
  "inv_wg s \<longleftrightarrow>
     readWg s = tally reader_live (readers s) + rd_added (mainpc s) \<and>
     processWg s = tally proc_live (procs s) + pr_added (mainpc s) \<and>
     readWg s \<le> maxInt32 \<and> processWg s \<le> maxInt32 \<and>
     (has_returned (mainpc s) \<longrightarrow> processWg s = 0)"

text \<open>
  \<open>jobsChan\<close> is closed exactly when the feeder is gone, it never holds more than its
  capacity \<open>len(jobs)\<close>, and a fetch worker is gone only if \<open>jobsChan\<close> is closed and
  empty.
\<close>

definition inv_jobs :: "FileJob list \<Rightarrow> 'f state \<Rightarrow> bool" where
  "inv_jobs jobs s \<longleftrightarrow>
     jobsClosed s = (feeder s = Some F_Done) \<and>
     (feeder s = None \<longrightarrow> jobsChan s = []) \<and>
     length (jobsChan s) + length (feeder_jobs jobs (feeder s)) \<le> length jobs \<and>
     (tally reader_live (readers s) < int (length (readers s))
        \<longrightarrow> jobsClosed s \<and> jobsChan s = [])"

text \<open>
  The goroutine of lines 74-77 gets past \<open>readWg.Wait()\<close> only when the counter is zero,
  \<open>resultsChan\<close> has been closed once when that goroutine is gone and not before, and a
  process worker is gone only if \<open>resultsChan\<close> is closed and empty.
\<close>

definition inv_results :: "'f state \<Rightarrow> bool" where
  "inv_results s \<longleftrightarrow>
     (past_wait (sentinel s) \<longrightarrow> readWg s = 0) \<and>
     resultsCloses s = closes_of (sentinel s) \<and>
     (tally proc_live (procs s) < int (length (procs s))
        \<longrightarrow> 0 < resultsCloses s \<and> resultsChan s = [])"

definition pipeline_inv :: "PipelineCfg \<Rightarrow> FileJob list \<Rightarrow> 'f state \<Rightarrow> bool" where
  "pipeline_inv cfg jobs s \<longleftrightarrow>
     \<not> panicked s \<and> inv_main cfg s \<and> inv_wg s \<and> inv_jobs jobs s \<and> inv_results s"

text \<open>
  What holds in every state of every run: the invariant, except that the calling
  goroutine may have panicked, at \<open>make\<close> or at \<open>Add\<close>, and then the call has not
  returned.
\<close>

definition pipeline_ok :: "PipelineCfg \<Rightarrow> FileJob list \<Rightarrow> 'f state \<Rightarrow> bool" where
  "pipeline_ok cfg jobs s \<longleftrightarrow>
     inv_main cfg s \<and> inv_wg s \<and> inv_jobs jobs s \<and> inv_results s \<and>
     (panicked s \<longrightarrow> \<not> has_returned (mainpc s))"

text \<open>
  The inputs on which no statement of \<open>TransferFiles\<close> panics: both calls of \<open>make\<close>
  succeed, and the pool sizes are such that no counter of a wait group can pass
  \<open>maxInt32\<close>. Running out of memory, which depends on the machine, is not modelled: an
  allocation that the runtime admits succeeds, and a goroutine that is started runs.
\<close>

definition within_limits :: "Runtime \<Rightarrow> PipelineCfg \<Rightarrow> FileJob list \<Rightarrow> bool" where
  "within_limits rt cfg jobs \<longleftrightarrow>
     makes_succeed rt cfg jobs \<and> SFTPReaders cfg \<le> maxInt32 \<and> Workers cfg \<le> maxInt32"

text \<open>What a step of a goroutine other than the calling one leaves alone.\<close>

definition same_frame :: "'f state \<Rightarrow> 'f state \<Rightarrow> bool" where
  "same_frame s s' \<longleftrightarrow>
     mainpc s' = mainpc s \<and> length (readers s') = length (readers s) \<and>
     length (procs s') = length (procs s) \<and>
     (feeder s' = None) = (feeder s = None) \<and> (sentinel s' = None) = (sentinel s = None)"

subsection \<open>Increments still to come\<close>

text \<open>
  What is in flight determines the increments still to come, since the capability and the
  processing function are functions of their argument: a result will count as \<open>failed\<close>
  or as \<open>transferred\<close> (line 85), a handle will fail to read or give a result (lines
  63-69), a job will fail to open or give a handle (line 58). With weights \<open>wF = 1\<close> and
  \<open>wT = 0\<close> the sum \<open>pend\<close> over a state is the number of increments of \<open>failed\<close>
  still to come, with \<open>wF = 0\<close> and \<open>wT = 1\<close> that of \<open>transferred\<close>.
\<close>

definition resW :: "int \<Rightarrow> int \<Rightarrow> ProcessFunc \<Rightarrow> FileResult \<Rightarrow> int" where
  "resW wF wT processFunc result = (case processFunc result of Some err \<Rightarrow> wF | None \<Rightarrow> wT)"

definition readW :: "int \<Rightarrow> int \<Rightarrow> 'f Client \<Rightarrow> ProcessFunc \<Rightarrow> FileJob \<Rightarrow> 'f \<Rightarrow> int" where
  "readW wF wT client processFunc job f =
     (case ReadAll client f of
        Inl err \<Rightarrow> wF
      | Inr data \<Rightarrow> resW wF wT processFunc \<lparr>FileResult.ID = FileJob.ID job, Data = data\<rparr>)"

definition jobW :: "int \<Rightarrow> int \<Rightarrow> 'f Client \<Rightarrow> ProcessFunc \<Rightarrow> FileJob \<Rightarrow> int" where
  "jobW wF wT client processFunc job =
     (case Open client (RemotePath job) of
        Inl err \<Rightarrow> wF
      | Inr f \<Rightarrow> readW wF wT client processFunc job f)"

fun readerW :: "int \<Rightarrow> int \<Rightarrow> 'f Client \<Rightarrow> ProcessFunc \<Rightarrow> 'f reader_pc \<Rightarrow> int" where
  "readerW wF wT client processFunc (R_Open job) = jobW wF wT client processFunc job"
| "readerW wF wT client processFunc (R_Read job f) = readW wF wT client processFunc job f"
| "readerW wF wT client processFunc R_Fail = wF"
| "readerW wF wT client processFunc (R_Send result) = resW wF wT processFunc result"
| "readerW wF wT client processFunc _ = 0"

fun procW :: "int \<Rightarrow> int \<Rightarrow> ProcessFunc \<Rightarrow> proc_pc \<Rightarrow> int" where
  "procW wF wT processFunc (P_Call result) = resW wF wT processFunc result"
| "procW wF wT processFunc P_IncFailed = wF"
| "procW wF wT processFunc P_IncTransferred = wT"
| "procW wF wT processFunc _ = 0"

definition pend ::
  "int \<Rightarrow> int \<Rightarrow> 'f Client \<Rightarrow> ProcessFunc \<Rightarrow> FileJob list \<Rightarrow> 'f state \<Rightarrow> int" where
  "pend wF wT client processFunc jobs s =
     tally (jobW wF wT client processFunc) (feeder_jobs jobs (feeder s))
     + tally (jobW wF wT client processFunc) (jobsChan s)
     + tally (readerW wF wT client processFunc) (readers s)
     + tally (resW wF wT processFunc) (resultsChan s)
     + tally (procW wF wT processFunc) (procs s)"

text \<open>A step either leaves the counters and the sum alone or moves one unit to a counter.\<close>

definition counts_step ::
  "int \<Rightarrow> int \<Rightarrow> 'f Client \<Rightarrow> ProcessFunc \<Rightarrow> FileJob list \<Rightarrow> 'f state \<Rightarrow> 'f state \<Rightarrow> bool"
  where
  "counts_step wF wT c p jobs s s' \<longleftrightarrow>
     (failed s' = failed s \<and> transferred s' = transferred s
        \<and> pend wF wT c p jobs s' = pend wF wT c p jobs s) \<or>
     (failed s' = failed s + 1 \<and> transferred s' = transferred s
        \<and> pend wF wT c p jobs s' + wF = pend wF wT c p jobs s) \<or>
     (failed s' = failed s \<and> transferred s' = transferred s + 1
        \<and> pend wF wT c p jobs s' + wT = pend wF wT c p jobs s)"

text \<open>Increments of \<open>failed\<close> and of \<open>transferred\<close> still to come.\<close>

abbreviation pendF :: "'f Client \<Rightarrow> ProcessFunc \<Rightarrow> FileJob list \<Rightarrow> 'f state \<Rightarrow> int" where
  "pendF \<equiv> pend 1 0"

abbreviation pendT :: "'f Client \<Rightarrow> ProcessFunc \<Rightarrow> FileJob list \<Rightarrow> 'f state \<Rightarrow> int" where
  "pendT \<equiv> pend 0 1"

text \<open>
  The counters are what has left the sum, modulo \<open>2 ^ 32\<close>, and the sum only shrinks.
\<close>

definition counted :: "'f Client \<Rightarrow> ProcessFunc \<Rightarrow> FileJob list \<Rightarrow> 'f state \<Rightarrow> bool" where
  "counted c p jobs s \<longleftrightarrow>
     pendF c p jobs s \<le> tally (jobW 1 0 c p) jobs \<and>
     pendT c p jobs s \<le> tally (jobW 0 1 c p) jobs \<and>
     failed s = word_of_int (tally (jobW 1 0 c p) jobs - pendF c p jobs s) \<and>
     transferred s = word_of_int (tally (jobW 0 1 c p) jobs - pendT c p jobs s)"

text \<open>
  Every goroutine that the call started is gone, and both channels are closed and empty.
\<close>

definition finished :: "'f state \<Rightarrow> bool" where
  "finished s \<longleftrightarrow>
     feeder s = Some F_Done \<and> jobsClosed s \<and> jobsChan s = [] \<and>
     (\<forall>r \<in> set (readers s). r = R_Done) \<and>
     sentinel s = Some S_Done \<and> resultsCloses s = 1 \<and> resultsChan s = [] \<and>
     (\<forall>w \<in> set (procs s). w = P_Done)"

subsection \<open>The values returned\<close>

text \<open>The pair that the call has returned is what the two counters hold.\<close>

definition returned_counters :: "'f state \<Rightarrow> bool" where
  "returned_counters s \<longleftrightarrow>
     (case mainpc s of M_Returned t f \<Rightarrow> t = transferred s \<and> f = failed s | _ \<Rightarrow> True)"

subsection \<open>A bound on the number of steps\<close>

text \<open>
  Each goroutine has a bounded number of steps left: the calling goroutine in each of its
  loops, the feeder ten for each job it has to send (which cover all the steps that job
  will cause downstream), a job in \<open>jobsChan\<close> nine, a result in \<open>resultsChan\<close> five,
  and a worker as many as the statement it is at.
\<close>

fun main_weight :: "PipelineCfg \<Rightarrow> FileJob list \<Rightarrow> main_pc \<Rightarrow> int" where
  "main_weight cfg jobs M_GoFeeder =
     8 + 10 * int (length jobs) + 3 * max 0 (Workers cfg) + 3 * max 0 (SFTPReaders cfg)"
| "main_weight cfg jobs (M_ReadLoop i) =
     6 + 3 * max 0 (Workers cfg) + 3 * max 0 (SFTPReaders cfg - i)"
| "main_weight cfg jobs (M_ReadGo i) =
     8 + 3 * max 0 (Workers cfg) + 3 * max 0 (SFTPReaders cfg - (i + 1))"
| "main_weight cfg jobs M_GoSentinel = 5 + 3 * max 0 (Workers cfg)"
| "main_weight cfg jobs (M_ProcLoop i) = 2 + 3 * max 0 (Workers cfg - i)"
| "main_weight cfg jobs (M_ProcGo i) = 4 + 3 * max 0 (Workers cfg - (i + 1))"
| "main_weight cfg jobs M_Wait = 1"
| "main_weight cfg jobs (M_Returned t f) = 0"

fun feeder_weight :: "feeder_pc option \<Rightarrow> int" where
  "feeder_weight (Some (F_Loop rest)) = 1 + 10 * int (length rest)"
| "feeder_weight _ = 0"

fun reader_weight :: "'f reader_pc \<Rightarrow> int" where
  "reader_weight R_Range = 1"
| "reader_weight (R_Open job) = 9"
| "reader_weight (R_Read job f) = 8"
| "reader_weight R_Fail = 2"
| "reader_weight (R_Send result) = 7"
| "reader_weight R_Done = 0"

fun sentinel_weight :: "sentinel_pc option \<Rightarrow> int" where
  "sentinel_weight (Some S_Wait) = 2"
| "sentinel_weight (Some S_Close) = 1"
| "sentinel_weight _ = 0"

fun proc_weight :: "proc_pc \<Rightarrow> int" where
  "proc_weight P_Range = 1"
| "proc_weight (P_Call result) = 4"
| "proc_weight P_IncFailed = 2"
| "proc_weight P_IncTransferred = 2"
| "proc_weight P_Done = 0"

definition weight :: "PipelineCfg \<Rightarrow> FileJob list \<Rightarrow> 'f state \<Rightarrow> int" where
  "weight cfg jobs s =
     main_weight cfg jobs (mainpc s) + feeder_weight (feeder s)
     + 9 * int (length (jobsChan s)) + tally reader_weight (readers s)
     + sentinel_weight (sentinel s)
     + 5 * int (length (resultsChan s)) + tally proc_weight (procs s)
     + (if panicked s then 0 else 1)"

text \<open>The weight of the initial state: no run has more steps.\<close>

definition run_bound :: "PipelineCfg \<Rightarrow> FileJob list \<Rightarrow> int" where
  "run_bound cfg jobs =
     9 + 10 * int (length jobs) + 3 * max 0 (Workers cfg) + 3 * max 0 (SFTPReaders cfg)"

text \<open>
  The call returns under every scheduler: no run is longer than \<open>run_bound\<close>, no
  goroutine panics, and in every state of a run either the call has returned or some
  goroutine can take a step. So a run that is continued for as long as some goroutine
  can step reaches the return.
\<close>

definition always_returns ::
  "Runtime \<Rightarrow> PipelineCfg \<Rightarrow> 'f Client \<Rightarrow> FileJob list \<Rightarrow> ProcessFunc \<Rightarrow> bool" where
  "always_returns rt cfg client jobs processFunc \<longleftrightarrow>
     (\<forall>sched s. TransferFiles rt cfg client jobs processFunc sched = Some s \<longrightarrow>
        int (length sched) \<le> run_bound cfg jobs \<and> \<not> panicked s \<and>
        (has_returned (mainpc s) \<or> (\<exists>a. fire client processFunc cfg jobs a s \<noteq> None)))"

subsection \<open>Results still to come\<close>

text \<open>
  The results that what is in flight will give to the processing function: a handle gives
  the result built at line 69 if it can be read, a job gives that of its handle if it can
  be opened, a result in \<open>resultsChan\<close> or held by a worker is itself.
\<close>

definition readR :: "'f Client \<Rightarrow> FileJob \<Rightarrow> 'f \<Rightarrow> FileResult multiset" where
  "readR client job f =
     (case ReadAll client f of
        Inl err \<Rightarrow> {#}
      | Inr data \<Rightarrow> {#\<lparr>FileResult.ID = FileJob.ID job, Data = data\<rparr>#})"

definition jobR :: "'f Client \<Rightarrow> FileJob \<Rightarrow> FileResult multiset" where
  "jobR client job =
     (case Open client (RemotePath job) of
        Inl err \<Rightarrow> {#}
      | Inr f \<Rightarrow> readR client job f)"

fun readerR :: "'f Client \<Rightarrow> 'f reader_pc \<Rightarrow> FileResult multiset" where
  "readerR client (R_Open job) = jobR client job"
| "readerR client (R_Read job f) = readR client job f"
| "readerR client (R_Send result) = {#result#}"
| "readerR client _ = {#}"

fun procR :: "proc_pc \<Rightarrow> FileResult multiset" where
  "procR (P_Call result) = {#result#}"
| "procR _ = {#}"

definition pendR :: "'f Client \<Rightarrow> FileJob list \<Rightarrow> 'f state \<Rightarrow> FileResult multiset" where
  "pendR client jobs s =
     tally (jobR client) (feeder_jobs jobs (feeder s))
     + tally (jobR client) (jobsChan s)
     + tally (readerR client) (readers s)
     + mset (resultsChan s)
     + tally procR (procs s)"

text \<open>The results handed to the processing function so far, and those still to come.\<close>

definition handed :: "'f Client \<Rightarrow> FileJob list \<Rightarrow> 'f state \<Rightarrow> FileResult multiset" where
  "handed client jobs s = mset (processed s) + pendR client jobs s"

subsection \<open>A pipeline without fetch workers\<close>

text \<open>
  Nothing has been fetched or processed: there is no fetch worker, no result, both
  counters are zero, and the process workers only wait or are gone.
\<close>

definition idle :: "'f state \<Rightarrow> bool" where
  "idle s \<longleftrightarrow>
     readers s = [] \<and> readWg s = 0 \<and> resultsChan s = [] \<and>
     opened s = [] \<and> processed s = [] \<and> transferred s = 0 \<and> failed s = 0 \<and>
     (\<forall>k < length (procs s). procs s ! k = P_Range \<or> procs s ! k = P_Done) \<and>
     (case mainpc s of
        M_ReadLoop i \<Rightarrow> 0 \<le> i
      | M_ReadGo i \<Rightarrow> False
      | M_Returned t f \<Rightarrow> t = 0 \<and> f = 0
      | _ \<Rightarrow> True)"

subsection \<open>TransferFiles and TransferFilesMock\<close>

text \<open>
  The state of \<open>TransferFilesMock\<close> that a state of \<open>TransferFiles\<close> stands for:
  between \<open>Add(1)\<close> and the \<open>go\<close> statement of a loop body, the state before the
  body, where \<open>WaitGroup.Go\<close> has not been called yet.
\<close>

definition unstarted :: "'f state \<Rightarrow> 'f state" where
  "unstarted s =
     (case mainpc s of
        M_ReadGo i \<Rightarrow> s\<lparr>readWg := readWg s - 1, mainpc := M_ReadLoop i\<rparr>
      | M_ProcGo i \<Rightarrow> s\<lparr>processWg := processWg s - 1, mainpc := M_ProcLoop i\<rparr>
      | _ \<Rightarrow> s)"

text \<open>The pairs of counts that some run returns.\<close>

definition TransferFiles_results ::
  "Runtime \<Rightarrow> PipelineCfg \<Rightarrow> 'f Client \<Rightarrow> FileJob list \<Rightarrow> ProcessFunc
   \<Rightarrow> (int32 \<times> int32) set" where
  "TransferFiles_results rt cfg client jobs processFunc =
     {(t, f). \<exists>sched s. TransferFiles rt cfg client jobs processFunc sched = Some s
        \<and> mainpc s = M_Returned t f}"

definition TransferFilesMock_results ::
  "Runtime \<Rightarrow> PipelineCfg \<Rightarrow> 'f Client \<Rightarrow> FileJob list \<Rightarrow> ProcessFunc
   \<Rightarrow> (int32 \<times> int32) set" where
  "TransferFilesMock_results rt cfg client jobs processFunc =
     {(t, f). \<exists>sched s. TransferFilesMock rt cfg client jobs processFunc sched = Some s
        \<and> mainpc s = M_Returned t f}"

section \<open>Proofs\<close>

subsection \<open>Sums\<close>

lemma tally_Nil [simp]: "tally g [] = 0"
  by (simp add: tally_def)

lemma tally_Cons [simp]: "tally g (x # xs) = g x + tally g xs"
  by (simp add: tally_def)

lemma tally_append [simp]: "tally g (xs @ ys) = tally g xs + tally g ys"
  by (simp add: tally_def)

lemma tally_nth: "i < length xs \<Longrightarrow> tally g xs = g (xs ! i) + tally_except g i xs"
proof -
  assume "i < length xs"
  then have "xs = take i xs @ (xs ! i) # drop (Suc i) xs"
    by (simp add: id_take_nth_drop)
  then have "tally g xs = tally g (take i xs @ (xs ! i) # drop (Suc i) xs)"
    by simp
  then show ?thesis
    by (simp add: tally_except_def add.left_commute)
qed

lemma tally_update [simp]:
  "i < length xs \<Longrightarrow> tally g (xs[i := v]) = g v + tally_except g i xs"
  by (simp add: upd_conv_take_nth_drop tally_except_def add.left_commute)

lemma tally_nonneg: "(\<And>x. (0::int) \<le> g x) \<Longrightarrow> 0 \<le> tally g xs"
  by (induction xs) auto

lemma tally_except_nonneg: "(\<And>x. (0::int) \<le> g x) \<Longrightarrow> 0 \<le> tally_except g i xs"
  by (simp add: tally_except_def tally_nonneg)

lemma reader_live_nonneg: "0 \<le> reader_live r"
  by (cases r) auto

lemma proc_live_nonneg: "0 \<le> proc_live r"
  by (cases r) auto

lemma tally_except_reader_live: "0 \<le> tally_except reader_live i (xs :: 'f reader_pc list)"
  by (simp add: tally_except_nonneg reader_live_nonneg)

lemma tally_except_proc_live: "0 \<le> tally_except proc_live i xs"
  by (simp add: tally_except_nonneg proc_live_nonneg)

lemma tally_reader_live_le: "tally reader_live xs \<le> int (length xs)"
proof (induction xs)
  case (Cons x xs)
  then show ?case by (cases x) simp_all
qed simp

lemma tally_proc_live_le: "tally proc_live xs \<le> int (length xs)"
proof (induction xs)
  case (Cons x xs)
  then show ?case by (cases x) simp_all
qed simp

lemma inv_init:
  "makes_succeed rt cfg jobs \<Longrightarrow> pipeline_inv cfg jobs (TransferFiles_init rt cfg jobs)"
  by (simp add: pipeline_inv_def inv_main_def inv_wg_def inv_jobs_def inv_results_def
      TransferFiles_init_def maxInt32_def)

lemma ok_init: "pipeline_ok cfg jobs (TransferFiles_init rt cfg jobs)"
  by (simp add: pipeline_ok_def inv_main_def inv_wg_def inv_jobs_def inv_results_def
      TransferFiles_init_def maxInt32_def)

lemma ok_inv: "pipeline_ok cfg jobs s \<Longrightarrow> \<not> panicked s \<Longrightarrow> pipeline_inv cfg jobs s"
  by (simp add: pipeline_ok_def pipeline_inv_def)

lemma inv_ok: "pipeline_inv cfg jobs s \<Longrightarrow> pipeline_ok cfg jobs s"
  by (simp add: pipeline_ok_def pipeline_inv_def)

lemma sentinel_cases:
  obtains "sentinel s = None" | "sentinel s = Some S_Wait" | "sentinel s = Some S_Close"
  | "sentinel s = Some S_Done"
  by (cases "sentinel s") (auto intro: sentinel_pc.exhaust)

lemma feeder_cases:
  obtains "feeder s = None" | rest where "feeder s = Some (F_Loop rest)"
  | "feeder s = Some F_Done"
  by (cases "feeder s") (auto intro: feeder_pc.exhaust)

subsection \<open>The goroutines that exist\<close>

lemma feeder_step_frame: "feeder_step jobs s = Some s' \<Longrightarrow> same_frame s s'"
  by (auto simp: feeder_step_def same_frame_def panic_def
      split: option.splits feeder_pc.splits list.splits if_splits)

lemma reader_step_frame: "reader_step c cfg i s = Some s' \<Longrightarrow> same_frame s s'"
  by (auto simp: reader_step_def same_frame_def panic_def readWg_Done_def
      split: reader_pc.splits list.splits if_splits sum.splits)

lemma handoff_step_frame: "handoff_step i k s = Some s' \<Longrightarrow> same_frame s s'"
  by (auto simp: handoff_step_def same_frame_def
      split: reader_pc.splits proc_pc.splits if_splits)

lemma sentinel_step_frame: "sentinel_step s = Some s' \<Longrightarrow> same_frame s s'"
  by (auto simp: sentinel_step_def same_frame_def panic_def
      split: option.splits sentinel_pc.splits if_splits)

lemma proc_step_frame: "proc_step p k s = Some s' \<Longrightarrow> same_frame s s'"
  by (auto simp: proc_step_def same_frame_def panic_def processWg_Done_def
      split: proc_pc.splits list.splits if_splits option.splits)

lemma worker_step_frame: "worker_step c p cfg jobs a s = Some s' \<Longrightarrow> same_frame s s'"
  by (cases a)
    (simp_all add: worker_step_def feeder_step_frame reader_step_frame handoff_step_frame
      sentinel_step_frame proc_step_frame)

lemma inv_main_frame: "same_frame s s' \<Longrightarrow> inv_main cfg s \<Longrightarrow> inv_main cfg s'"
  by (simp add: same_frame_def inv_main_def)

lemma main_step_inv_main:
  "inv_main cfg s \<Longrightarrow> main_step cfg jobs s = Some s' \<Longrightarrow> inv_main cfg s'"
  unfolding main_step_def inv_main_def
  by (cases "mainpc s") (auto simp: panic_def split: if_splits)

subsection \<open>The wait-group counters\<close>

lemma main_step_inv_wg: "inv_wg s \<Longrightarrow> main_step cfg jobs s = Some s' \<Longrightarrow> inv_wg s'"
  unfolding main_step_def inv_wg_def
  by (cases "mainpc s") (auto simp: panic_def split: if_splits)

lemma feeder_step_inv_wg: "inv_wg s \<Longrightarrow> feeder_step jobs s = Some s' \<Longrightarrow> inv_wg s'"
  by (auto simp: feeder_step_def inv_wg_def panic_def
      split: option.splits feeder_pc.splits list.splits if_splits)

lemma sentinel_step_inv_wg: "inv_wg s \<Longrightarrow> sentinel_step s = Some s' \<Longrightarrow> inv_wg s'"
  by (auto simp: sentinel_step_def inv_wg_def panic_def
      split: option.splits sentinel_pc.splits if_splits)

lemma reader_step_inv_wg:
  "inv_wg s \<Longrightarrow> reader_step c cfg i s = Some s' \<Longrightarrow> \<not> panicked s' \<Longrightarrow> inv_wg s'"
  by (auto simp: reader_step_def inv_wg_def panic_def readWg_Done_def
      tally_nth [of i "readers s"]
      split: reader_pc.splits list.splits if_splits sum.splits)

lemma proc_step_inv_wg:
  "inv_wg s \<Longrightarrow> proc_step p k s = Some s' \<Longrightarrow> \<not> panicked s' \<Longrightarrow> inv_wg s'"
  using tally_except_proc_live [of k "procs s"]
  by (auto simp: proc_step_def inv_wg_def panic_def processWg_Done_def
      tally_nth [of k "procs s"]
      split: proc_pc.splits list.splits if_splits option.splits)

lemma handoff_step_inv_wg: "inv_wg s \<Longrightarrow> handoff_step i k s = Some s' \<Longrightarrow> inv_wg s'"
  by (auto simp: handoff_step_def inv_wg_def
      tally_nth [of k "procs s"] tally_nth [of i "readers s"]
      split: reader_pc.splits proc_pc.splits if_splits)

subsection \<open>The jobs channel\<close>

lemma main_step_inv_jobs:
  "inv_main cfg s \<Longrightarrow> inv_jobs jobs s \<Longrightarrow> main_step cfg jobs s = Some s'
   \<Longrightarrow> inv_jobs jobs s'"
  unfolding main_step_def inv_jobs_def inv_main_def
  by (cases "mainpc s") (auto simp: panic_def split: if_splits)

lemma feeder_step_inv_jobs:
  "inv_jobs jobs s \<Longrightarrow> feeder_step jobs s = Some s' \<Longrightarrow> \<not> panicked s'
   \<Longrightarrow> inv_jobs jobs s'"
  by (auto simp: feeder_step_def inv_jobs_def panic_def
      split: option.splits feeder_pc.splits list.splits if_splits)

lemma sentinel_step_inv_jobs:
  "inv_jobs jobs s \<Longrightarrow> sentinel_step s = Some s' \<Longrightarrow> inv_jobs jobs s'"
  by (auto simp: sentinel_step_def inv_jobs_def panic_def
      split: option.splits sentinel_pc.splits if_splits)

lemma reader_step_inv_jobs:
  "inv_jobs jobs s \<Longrightarrow> reader_step c cfg i s = Some s' \<Longrightarrow> inv_jobs jobs s'"
  by (auto simp: reader_step_def inv_jobs_def panic_def readWg_Done_def
      tally_nth [of i "readers s"]
      split: reader_pc.splits list.splits if_splits sum.splits)

lemma proc_step_inv_jobs:
  "inv_jobs jobs s \<Longrightarrow> proc_step p k s = Some s' \<Longrightarrow> inv_jobs jobs s'"
  by (auto simp: proc_step_def inv_jobs_def panic_def processWg_Done_def
      split: proc_pc.splits list.splits if_splits option.splits)

lemma handoff_step_inv_jobs:
  "inv_jobs jobs s \<Longrightarrow> handoff_step i k s = Some s' \<Longrightarrow> inv_jobs jobs s'"
  by (auto simp: handoff_step_def inv_jobs_def tally_nth [of i "readers s"]
      split: reader_pc.splits proc_pc.splits if_splits)

subsection \<open>The results channel\<close>

lemma main_step_inv_results:
  "inv_main cfg s \<Longrightarrow> inv_results s \<Longrightarrow> main_step cfg jobs s = Some s'
   \<Longrightarrow> inv_results s'"
  unfolding main_step_def inv_results_def inv_main_def
  by (cases "mainpc s") (auto simp: panic_def split: if_splits)

lemma feeder_step_inv_results:
  "inv_results s \<Longrightarrow> feeder_step jobs s = Some s' \<Longrightarrow> inv_results s'"
  by (auto simp: feeder_step_def inv_results_def panic_def
      split: option.splits feeder_pc.splits list.splits if_splits)

lemma sentinel_step_inv_results:
  "inv_results s \<Longrightarrow> sentinel_step s = Some s' \<Longrightarrow> \<not> panicked s' \<Longrightarrow> inv_results s'"
  by (auto simp: sentinel_step_def inv_results_def panic_def
      split: option.splits sentinel_pc.splits if_splits)

lemma reader_step_inv_results:
  "inv_results s \<Longrightarrow> reader_step c cfg i s = Some s' \<Longrightarrow> \<not> panicked s'
   \<Longrightarrow> inv_results s'"
  by (auto simp: reader_step_def inv_results_def panic_def readWg_Done_def
      split: reader_pc.splits list.splits if_splits sum.splits)

lemma proc_step_inv_results:
  "inv_results s \<Longrightarrow> proc_step p k s = Some s' \<Longrightarrow> inv_results s'"
  by (auto simp: proc_step_def inv_results_def panic_def processWg_Done_def
      tally_nth [of k "procs s"]
      split: proc_pc.splits list.splits if_splits option.splits)

lemma handoff_step_inv_results:
  "inv_results s \<Longrightarrow> handoff_step i k s = Some s' \<Longrightarrow> inv_results s'"
  by (auto simp: handoff_step_def inv_results_def tally_nth [of k "procs s"]
      split: reader_pc.splits proc_pc.splits if_splits)

subsection \<open>No goroutine panics\<close>

text \<open>
  The calling goroutine panics only at \<open>Add\<close>, and not at all when the pool sizes fit
  an \<open>int32\<close>.
\<close>

lemma main_step_panic:
  "main_step cfg jobs s = Some s' \<Longrightarrow> \<not> panicked s \<Longrightarrow> panicked s'
   \<Longrightarrow> \<not> has_returned (mainpc s')"
  by (auto simp: main_step_def panic_def split: main_pc.splits if_splits)

lemma main_step_no_panic:
  assumes "inv_main cfg s" and "inv_wg s"
    and "SFTPReaders cfg \<le> maxInt32" and "Workers cfg \<le> maxInt32"
    and "\<not> panicked s" and "main_step cfg jobs s = Some s'"
  shows "\<not> panicked s'"
  using assms tally_reader_live_le [of "readers s"] tally_proc_live_le [of "procs s"]
  unfolding main_step_def inv_main_def inv_wg_def
  by (cases "mainpc s") (auto simp: panic_def split: if_splits)

lemma handoff_step_no_panic:
  "\<not> panicked s \<Longrightarrow> handoff_step i k s = Some s' \<Longrightarrow> \<not> panicked s'"
  by (auto simp: handoff_step_def split: reader_pc.splits proc_pc.splits if_splits)

lemma feeder_step_no_panic:
  "inv_jobs jobs s \<Longrightarrow> \<not> panicked s \<Longrightarrow> feeder_step jobs s = Some s' \<Longrightarrow> \<not> panicked s'"
  by (auto simp: feeder_step_def inv_jobs_def panic_def
      split: option.splits feeder_pc.splits list.splits if_splits)

lemma sentinel_step_no_panic:
  "inv_results s \<Longrightarrow> \<not> panicked s \<Longrightarrow> sentinel_step s = Some s' \<Longrightarrow> \<not> panicked s'"
  by (auto simp: sentinel_step_def inv_results_def panic_def
      split: option.splits sentinel_pc.splits if_splits)

lemma rd_added_nonneg: "0 \<le> rd_added pc"
  by (cases pc) auto

lemma pr_added_nonneg: "0 \<le> pr_added pc"
  by (cases pc) auto

lemma live_reader_readWg:
  assumes "inv_wg s" and "i < length (readers s)" and "readers s ! i \<noteq> R_Done"
  shows "1 \<le> readWg s"
proof -
  from assms(3) have "reader_live (readers s ! i) = 1"
    by (cases "readers s ! i") auto
  with assms(1,2) tally_except_reader_live [of i "readers s"] rd_added_nonneg [of "mainpc s"]
  show ?thesis
    by (simp add: inv_wg_def tally_nth [of i "readers s"])
qed

lemma live_proc_processWg:
  assumes "inv_wg s" and "k < length (procs s)" and "procs s ! k \<noteq> P_Done"
  shows "1 \<le> processWg s"
proof -
  from assms(3) have "proc_live (procs s ! k) = 1"
    by (cases "procs s ! k") auto
  with assms(1,2) tally_except_proc_live [of k "procs s"] pr_added_nonneg [of "mainpc s"]
  show ?thesis
    by (simp add: inv_wg_def tally_nth [of k "procs s"])
qed

lemma closed_readWg: "inv_results s \<Longrightarrow> 0 < resultsCloses s \<Longrightarrow> readWg s = 0"
  by (rule sentinel_cases [of s]) (auto simp: inv_results_def)

lemma reader_step_no_panic:
  assumes "inv_wg s" and "inv_results s" and "\<not> panicked s"
    and "reader_step c cfg i s = Some s'"
  shows "\<not> panicked s'"
proof -
  from assms(4) have i: "i < length (readers s)" and live: "readers s ! i \<noteq> R_Done"
    by (auto simp: reader_step_def split: if_splits)
  from live_reader_readWg [OF assms(1) i live] closed_readWg [OF assms(2)]
  have "1 \<le> readWg s" and "resultsCloses s = 0"
    by auto
  with assms(3,4) show ?thesis
    by (auto simp: reader_step_def panic_def readWg_Done_def
        split: reader_pc.splits list.splits if_splits sum.splits)
qed

lemma proc_step_no_panic:
  assumes "inv_wg s" and "\<not> panicked s" and "proc_step p k s = Some s'"
  shows "\<not> panicked s'"
proof -
  from assms(3) have k: "k < length (procs s)" and live: "procs s ! k \<noteq> P_Done"
    by (auto simp: proc_step_def split: if_splits)
  from live_proc_processWg [OF assms(1) k live] assms(2,3) show ?thesis
    by (auto simp: proc_step_def panic_def processWg_Done_def
        split: proc_pc.splits list.splits if_splits option.splits)
qed

subsection \<open>Every step keeps the invariant\<close>

lemma worker_step_no_panic:
  assumes "pipeline_inv cfg jobs s" and "worker_step c p cfg jobs a s = Some s'"
  shows "\<not> panicked s'"
proof (cases a)
  case Main
  with assms(2) show ?thesis by (simp add: worker_step_def)
next
  case Feeder
  with assms(2) have "feeder_step jobs s = Some s'"
    by (simp add: worker_step_def)
  from assms(1) feeder_step_no_panic [OF _ _ this] show ?thesis
    by (simp add: pipeline_inv_def)
next
  case (Reader i)
  with assms(2) have "reader_step c cfg i s = Some s'"
    by (simp add: worker_step_def)
  from assms(1) reader_step_no_panic [OF _ _ _ this] show ?thesis
    by (simp add: pipeline_inv_def)
next
  case (Handoff i k)
  with assms(2) have "handoff_step i k s = Some s'"
    by (simp add: worker_step_def)
  from assms(1) handoff_step_no_panic [OF _ this] show ?thesis
    by (simp add: pipeline_inv_def)
next
  case Sentinel
  with assms(2) have "sentinel_step s = Some s'"
    by (simp add: worker_step_def)
  from assms(1) sentinel_step_no_panic [OF _ _ this] show ?thesis
    by (simp add: pipeline_inv_def)
next
  case (Proc k)
  with assms(2) have "proc_step p k s = Some s'"
    by (simp add: worker_step_def)
  from assms(1) proc_step_no_panic [OF _ _ this] show ?thesis
    by (simp add: pipeline_inv_def)
qed

lemma fire_inv:
  assumes "pipeline_inv cfg jobs s" and "fire c p cfg jobs a s = Some s'"
    and np': "\<not> panicked s'"
  shows "pipeline_inv cfg jobs s'"
proof (cases a)
  case Main
  with assms show ?thesis
    by (auto simp: pipeline_inv_def fire_def split: if_splits
        intro: main_step_inv_main main_step_inv_wg main_step_inv_jobs main_step_inv_results)
next
  case Feeder
  with assms have st: "feeder_step jobs s = Some s'"
    by (simp add: fire_def worker_step_def split: if_splits)
  with assms(1) np' show ?thesis
    by (auto simp: pipeline_inv_def intro: inv_main_frame [OF feeder_step_frame] feeder_step_inv_wg
        feeder_step_inv_jobs feeder_step_inv_results)
next
  case (Reader i)
  with assms have st: "reader_step c cfg i s = Some s'"
    by (simp add: fire_def worker_step_def split: if_splits)
  with assms(1) np' show ?thesis
    by (auto simp: pipeline_inv_def intro: inv_main_frame [OF reader_step_frame] reader_step_inv_wg
        reader_step_inv_jobs reader_step_inv_results)
next
  case (Handoff i k)
  with assms have st: "handoff_step i k s = Some s'"
    by (simp add: fire_def worker_step_def split: if_splits)
  with assms(1) np' show ?thesis
    by (auto simp: pipeline_inv_def intro: inv_main_frame [OF handoff_step_frame]
        handoff_step_inv_wg handoff_step_inv_jobs handoff_step_inv_results)
next
  case Sentinel
  with assms have st: "sentinel_step s = Some s'"
    by (simp add: fire_def worker_step_def split: if_splits)
  with assms(1) np' show ?thesis
    by (auto simp: pipeline_inv_def intro: inv_main_frame [OF sentinel_step_frame] sentinel_step_inv_wg
        sentinel_step_inv_jobs sentinel_step_inv_results)
next
  case (Proc k)
  with assms have st: "proc_step p k s = Some s'"
    by (simp add: fire_def worker_step_def split: if_splits)
  with assms(1) np' show ?thesis
    by (auto simp: pipeline_inv_def intro: inv_main_frame [OF proc_step_frame] proc_step_inv_wg
        proc_step_inv_jobs proc_step_inv_results)
qed

text \<open>Only the calling goroutine panics, and it has not returned then.\<close>

lemma fire_ok:
  assumes "pipeline_ok cfg jobs s" and "fire c p cfg jobs a s = Some s'"
  shows "pipeline_ok cfg jobs s'"
proof -
  from assms(2) have np: "\<not> panicked s"
    by (simp add: fire_def split: if_splits)
  with assms(1) have I: "pipeline_inv cfg jobs s"
    by (rule ok_inv)
  show ?thesis
  proof (cases "panicked s'")
    case False
    from fire_inv [OF I assms(2) False] show ?thesis
      by (rule inv_ok)
  next
    case True
    have "a = Main"
    proof (rule ccontr)
      assume "a \<noteq> Main"
      with assms(2) np have "worker_step c p cfg jobs a s = Some s'"
        by (cases a) (simp_all add: fire_def)
      from worker_step_no_panic [OF I this] True show False
        by simp
    qed
    with assms(2) np have st: "main_step cfg jobs s = Some s'"
      by (simp add: fire_def)
    from I have "inv_main cfg s" and "inv_wg s" and "inv_jobs jobs s" and "inv_results s"
      by (simp_all add: pipeline_inv_def)
    with st main_step_panic [OF st np True] show ?thesis
      by (simp add: pipeline_ok_def main_step_inv_main main_step_inv_wg
          main_step_inv_jobs [of cfg] main_step_inv_results [of cfg])
  qed
qed

text \<open>
  What every step from a state with the invariant keeps holds in every state of a run.
\<close>

lemma exec_keeps:
  assumes step: "\<And>a s s'. pipeline_inv cfg jobs s \<Longrightarrow> P s \<Longrightarrow> fire c p cfg jobs a s = Some s'
    \<Longrightarrow> P s'"
  shows "pipeline_ok cfg jobs s \<Longrightarrow> P s \<Longrightarrow> exec (fire c p cfg jobs) sched s = Some s'
    \<Longrightarrow> P s' \<and> pipeline_ok cfg jobs s'"
proof (induction sched arbitrary: s)
  case Nil
  then show ?case by simp
next
  case (Cons a sched)
  from Cons.prems(3) obtain s1 where 1: "fire c p cfg jobs a s = Some s1"
    and 2: "exec (fire c p cfg jobs) sched s1 = Some s'"
    by (auto split: option.splits)
  from 1 have "\<not> panicked s"
    by (simp add: fire_def split: if_splits)
  with Cons.prems(1) have I: "pipeline_inv cfg jobs s"
    by (rule ok_inv)
  from Cons.IH [OF fire_ok [OF Cons.prems(1) 1] step [OF I Cons.prems(2) 1] 2]
  show ?case .
qed

lemma exec_ok:
  "pipeline_ok cfg jobs s \<Longrightarrow> exec (fire c p cfg jobs) sched s = Some s'
   \<Longrightarrow> pipeline_ok cfg jobs s'"
  using exec_keeps [where P = "\<lambda>x. True", of cfg jobs c p s sched s'] by simp

lemma TransferFiles_ok:
  "TransferFiles rt cfg c jobs p sched = Some s \<Longrightarrow> pipeline_ok cfg jobs s"
  unfolding TransferFiles_def by (rule exec_ok [OF ok_init])

lemma TransferFiles_returned_inv:
  "TransferFiles rt cfg c jobs p sched = Some s \<Longrightarrow> has_returned (mainpc s)
   \<Longrightarrow> pipeline_inv cfg jobs s"
  using TransferFiles_ok [of rt cfg c jobs p sched s]
  by (auto simp: pipeline_ok_def pipeline_inv_def)

text \<open>Within the limits no goroutine panics.\<close>

lemma fire_no_panic:
  assumes I: "pipeline_inv cfg jobs s"
    and lim: "SFTPReaders cfg \<le> maxInt32" "Workers cfg \<le> maxInt32"
    and st: "fire c p cfg jobs a s = Some s'"
  shows "\<not> panicked s'"
proof (cases "a = Main")
  case True
  with st I have "main_step cfg jobs s = Some s'"
    by (simp add: fire_def pipeline_inv_def)
  from main_step_no_panic [OF _ _ lim _ this] I show ?thesis
    by (simp add: pipeline_inv_def)
next
  case False
  with st I have "worker_step c p cfg jobs a s = Some s'"
    by (cases a) (simp_all add: fire_def pipeline_inv_def)
  from worker_step_no_panic [OF I this] show ?thesis .
qed

lemma fire_inv_limits:
  assumes "pipeline_inv cfg jobs s"
    and "SFTPReaders cfg \<le> maxInt32" and "Workers cfg \<le> maxInt32"
    and "fire c p cfg jobs a s = Some s'"
  shows "pipeline_inv cfg jobs s'"
  by (rule fire_inv [OF assms(1,4) fire_no_panic [OF assms]])

lemma exec_inv:
  assumes lim: "SFTPReaders cfg \<le> maxInt32" "Workers cfg \<le> maxInt32"
  shows "pipeline_inv cfg jobs s \<Longrightarrow> exec (fire c p cfg jobs) sched s = Some s'
    \<Longrightarrow> pipeline_inv cfg jobs s'"
proof (induction sched arbitrary: s)
  case Nil
  then show ?case by simp
next
  case (Cons a sched)
  from Cons.prems(2) obtain s1 where 1: "fire c p cfg jobs a s = Some s1"
    and 2: "exec (fire c p cfg jobs) sched s1 = Some s'"
    by (auto split: option.splits)
  from Cons.IH [OF fire_inv_limits [OF Cons.prems(1) lim 1] 2] show ?case .
qed

lemma TransferFiles_inv:
  assumes "within_limits rt cfg jobs" and "TransferFiles rt cfg c jobs p sched = Some s"
  shows "pipeline_inv cfg jobs s"
proof -
  from assms(1) have m: "makes_succeed rt cfg jobs"
    and lim: "SFTPReaders cfg \<le> maxInt32" "Workers cfg \<le> maxInt32"
    by (simp_all add: within_limits_def)
  from exec_inv [OF lim inv_init [OF m] assms(2) [unfolded TransferFiles_def]]
  show ?thesis .
qed

subsection \<open>The counters and the increments still to come\<close>

lemma jobW_Open:
  "Open c (RemotePath j) = Inl e \<Longrightarrow> jobW wF wT c p j = wF"
  "Open c (RemotePath j) = Inr f \<Longrightarrow> jobW wF wT c p j = readW wF wT c p j f"
  by (simp_all add: jobW_def)

lemma readW_ReadAll:
  "ReadAll c f = Inl e \<Longrightarrow> readW wF wT c p j f = wF"
  "ReadAll c f = Inr d \<Longrightarrow>
     readW wF wT c p j f = resW wF wT p \<lparr>FileResult.ID = FileJob.ID j, Data = d\<rparr>"
  by (simp_all add: readW_def)

lemma resW_call:
  "p r = Some e \<Longrightarrow> resW wF wT p r = wF" "p r = None \<Longrightarrow> resW wF wT p r = wT"
  by (simp_all add: resW_def)

lemma feeder_step_counts: "feeder_step jobs s = Some s' \<Longrightarrow> counts_step wF wT c p jobs s s'"
  unfolding feeder_step_def counts_step_def
  by (auto simp: pend_def panic_def split: option.splits feeder_pc.splits list.splits if_splits)

lemma reader_step_counts:
  "reader_step c cfg i s = Some s' \<Longrightarrow> counts_step wF wT c p jobs s s'"
  unfolding reader_step_def counts_step_def
  by (auto simp: pend_def panic_def readWg_Done_def tally_nth [of i "readers s"]
      jobW_Open readW_ReadAll
      split: reader_pc.splits list.splits if_splits sum.splits)

lemma proc_step_counts: "proc_step p k s = Some s' \<Longrightarrow> counts_step wF wT c p jobs s s'"
  unfolding proc_step_def counts_step_def
  by (auto simp: pend_def panic_def processWg_Done_def tally_nth [of k "procs s"] resW_call
      split: proc_pc.splits list.splits if_splits option.splits)

lemma handoff_step_counts: "handoff_step i k s = Some s' \<Longrightarrow> counts_step wF wT c p jobs s s'"
  unfolding handoff_step_def counts_step_def
  by (auto simp: pend_def tally_nth [of k "procs s"] tally_nth [of i "readers s"]
      split: proc_pc.splits reader_pc.splits if_splits)

lemma sentinel_step_counts: "sentinel_step s = Some s' \<Longrightarrow> counts_step wF wT c p jobs s s'"
  unfolding sentinel_step_def counts_step_def
  by (auto simp: pend_def panic_def split: sentinel_pc.splits if_splits option.splits)

lemma main_step_counts:
  "inv_main cfg s \<Longrightarrow> main_step cfg jobs s = Some s' \<Longrightarrow> counts_step wF wT c p jobs s s'"
  unfolding main_step_def counts_step_def inv_main_def
  by (cases "mainpc s") (auto simp: pend_def panic_def split: if_splits)

lemma fire_counts:
  "pipeline_inv cfg jobs s \<Longrightarrow> fire c p cfg jobs a s = Some s' \<Longrightarrow> counts_step wF wT c p jobs s s'"
  by (cases a)
    (auto simp: fire_def worker_step_def pipeline_inv_def split: if_splits
      intro: main_step_counts feeder_step_counts reader_step_counts handoff_step_counts
        sentinel_step_counts proc_step_counts)

lemma counted_init: "counted c p jobs (TransferFiles_init rt cfg jobs)"
  by (simp add: counted_def pend_def TransferFiles_init_def)

lemma counts_step_failed:
  assumes "counts_step 1 0 c p jobs s s'"
  shows "pendF c p jobs s' \<le> pendF c p jobs s \<and>
    failed s' = failed s + word_of_int (pendF c p jobs s - pendF c p jobs s')"
  using assms unfolding counts_step_def
proof (elim disjE conjE)
  assume "failed s' = failed s + 1" and "pendF c p jobs s' + 1 = pendF c p jobs s"
  then have "failed s' = failed s + 1" and "pendF c p jobs s - pendF c p jobs s' = 1"
    by simp_all
  then show ?thesis by simp
qed simp_all

lemma counts_step_transferred:
  assumes "counts_step 0 1 c p jobs s s'"
  shows "pendT c p jobs s' \<le> pendT c p jobs s \<and>
    transferred s' = transferred s + word_of_int (pendT c p jobs s - pendT c p jobs s')"
  using assms unfolding counts_step_def
proof (elim disjE conjE)
  assume "transferred s' = transferred s + 1" and "pendT c p jobs s' + 1 = pendT c p jobs s"
  then have "transferred s' = transferred s + 1" and "pendT c p jobs s - pendT c p jobs s' = 1"
    by simp_all
  then show ?thesis by simp
qed simp_all

lemma fire_counted:
  assumes "pipeline_inv cfg jobs s" and "counted c p jobs s" and "fire c p cfg jobs a s = Some s'"
  shows "counted c p jobs s'"
proof -
  note f = counts_step_failed [OF fire_counts [OF assms(1,3)]]
  note t = counts_step_transferred [OF fire_counts [OF assms(1,3)]]
  have add: "word_of_int (x - y) + word_of_int (y - z) = (word_of_int (x - z) :: int32)"
    for x y z :: int
    by simp
  from f assms(2) have 1: "pendF c p jobs s' \<le> tally (jobW 1 0 c p) jobs"
    unfolding counted_def by linarith
  from t assms(2) have 2: "pendT c p jobs s' \<le> tally (jobW 0 1 c p) jobs"
    unfolding counted_def by linarith
  from f assms(2) have 3:
    "failed s' = word_of_int (tally (jobW 1 0 c p) jobs - pendF c p jobs s')"
    unfolding counted_def by (simp only: add)
  from t assms(2) have 4:
    "transferred s' = word_of_int (tally (jobW 0 1 c p) jobs - pendT c p jobs s')"
    unfolding counted_def by (simp only: add)
  from 1 2 3 4 show ?thesis
    unfolding counted_def by blast
qed

lemma exec_counted:
  assumes "pipeline_ok cfg jobs s" and "counted c p jobs s"
    and "exec (fire c p cfg jobs) sched s = Some s'"
  shows "counted c p jobs s'"
  using exec_keeps [where P = "counted c p jobs", OF fire_counted assms] by simp

subsection \<open>When the call has returned\<close>

lemma tally_zero_iff:
  "(\<And>x. (0::int) \<le> g x) \<Longrightarrow> tally g xs = 0 \<longleftrightarrow> (\<forall>x \<in> set xs. g x = 0)"
proof (induction xs)
  case Nil
  show ?case by simp
next
  case (Cons x xs)
  from Cons.prems have "0 \<le> g x" and "0 \<le> tally g xs"
    by (simp_all add: tally_nonneg)
  then have "g x + tally g xs = 0 \<longleftrightarrow> g x = 0 \<and> tally g xs = 0"
    by linarith
  with Cons show ?case
    by simp
qed

lemma tally_all_zero: "(\<forall>x \<in> set xs. g x = 0) \<Longrightarrow> tally g xs = 0"
  by (induction xs) auto

lemma readers_all_done:
  "tally reader_live xs = 0 \<Longrightarrow> \<forall>r \<in> set xs. r = R_Done"
proof -
  assume "tally reader_live xs = 0"
  then have "\<forall>r \<in> set xs. reader_live r = 0"
    by (simp add: tally_zero_iff reader_live_nonneg)
  moreover have "reader_live r = 0 \<Longrightarrow> r = R_Done" for r :: "'a reader_pc"
    by (cases r) simp_all
  ultimately show ?thesis
    by blast
qed

lemma procs_all_done:
  "tally proc_live xs = 0 \<Longrightarrow> \<forall>w \<in> set xs. w = P_Done"
proof -
  assume "tally proc_live xs = 0"
  then have "\<forall>w \<in> set xs. proc_live w = 0"
    by (simp add: tally_zero_iff proc_live_nonneg)
  moreover have "proc_live w = 0 \<Longrightarrow> w = P_Done" for w
    by (cases w) simp_all
  ultimately show ?thesis
    by blast
qed

lemma returned_procs_done:
  assumes "pipeline_inv cfg jobs s" and "mainpc s = M_Returned t f"
  shows "tally proc_live (procs s) = 0" and "int (length (procs s)) = max 0 (Workers cfg)"
  using assms by (simp_all add: pipeline_inv_def inv_wg_def inv_main_def)

lemma returned_results_closed:
  assumes "pipeline_inv cfg jobs s" and "mainpc s = M_Returned t f" and "0 < Workers cfg"
  shows "sentinel s = Some S_Done" and "resultsCloses s = 1" and "resultsChan s = []"
    and "tally reader_live (readers s) = 0"
    and "int (length (readers s)) = max 0 (SFTPReaders cfg)"
proof -
  from returned_procs_done [OF assms(1,2)] assms(3)
  have "tally proc_live (procs s) < int (length (procs s))"
    by simp
  with assms(1) have c: "0 < resultsCloses s" and "resultsChan s = []"
    by (simp_all add: pipeline_inv_def inv_results_def)
  then show "resultsChan s = []" by simp
  show d: "sentinel s = Some S_Done"
    using assms(1) c
    by - (rule sentinel_cases [of s], simp_all add: pipeline_inv_def inv_results_def)
  with assms(1) show "resultsCloses s = 1"
    by (simp add: pipeline_inv_def inv_results_def)
  from assms(1,2) d show "tally reader_live (readers s) = 0"
    by (simp add: pipeline_inv_def inv_results_def inv_wg_def)
  from assms(1,2) show "int (length (readers s)) = max 0 (SFTPReaders cfg)"
    by (simp add: pipeline_inv_def inv_main_def)
qed

lemma returned_finished:
  assumes "pipeline_inv cfg jobs s" and "mainpc s = M_Returned t f"
    and "0 < SFTPReaders cfg" and "0 < Workers cfg"
  shows "finished s"
proof -
  note r = returned_results_closed [OF assms(1,2,4)]
  from r(4,5) assms(3) have "tally reader_live (readers s) < int (length (readers s))"
    by simp
  with assms(1) have "jobsClosed s" and "jobsChan s = []" and "feeder s = Some F_Done"
    by (auto simp: pipeline_inv_def inv_jobs_def)
  with r readers_all_done [OF r(4)] procs_all_done [OF returned_procs_done(1) [OF assms(1,2)]]
  show ?thesis
    by (simp add: finished_def)
qed

lemma readerW_Done: "\<forall>r \<in> set xs. r = R_Done \<Longrightarrow> tally (readerW wF wT c p) xs = 0"
  by (rule tally_all_zero) auto

lemma procW_Done: "\<forall>w \<in> set xs. w = P_Done \<Longrightarrow> tally (procW wF wT p) xs = 0"
  by (rule tally_all_zero) auto

lemma finished_pend: "finished s \<Longrightarrow> pend wF wT c p jobs s = 0"
  by (simp add: finished_def pend_def readerW_Done procW_Done)

lemma finished_counts:
  assumes "finished s" and "counted c p jobs s"
  shows "failed s = word_of_int (tally (jobW 1 0 c p) jobs)"
    and "transferred s = word_of_int (tally (jobW 0 1 c p) jobs)"
  using assms(2) by (simp_all add: counted_def finished_pend [OF assms(1)])

subsection \<open>When make panics\<close>

lemma fire_panicked: "panicked s \<Longrightarrow> fire c p cfg jobs a s = None"
  by (simp add: fire_def)

lemma exec_panicked:
  "panicked s \<Longrightarrow> exec (fire c p cfg jobs) sched s = Some s' \<Longrightarrow> s' = s"
  by (cases sched) (simp_all add: fire_panicked)

lemma TransferFiles_make_panics:
  "\<not> makes_succeed rt cfg jobs \<Longrightarrow> TransferFiles rt cfg c jobs p sched = Some s
   \<Longrightarrow> s = TransferFiles_init rt cfg jobs"
  unfolding TransferFiles_def
  by (rule exec_panicked) (simp add: TransferFiles_init_def)

subsection \<open>The counters when the call returns\<close>

lemma exec_append:
  "exec step (xs @ ys) s = (case exec step xs s of None \<Rightarrow> None | Some s' \<Rightarrow> exec step ys s')"
  by (induction xs arbitrary: s) (auto split: option.splits)

lemma TransferFiles_counted:
  "TransferFiles rt cfg c jobs p sched = Some s \<Longrightarrow> counted c p jobs s"
  unfolding TransferFiles_def by (rule exec_counted [OF ok_init counted_init])

lemma resW_cases: "resW 1 0 p r + resW 0 1 p r = 1" "0 \<le> resW 1 0 p r" "0 \<le> resW 0 1 p r"
  by (simp_all add: resW_def split: option.splits)

lemma readW_cases:
  "readW 1 0 c p j f + readW 0 1 c p j f = 1" "0 \<le> readW 1 0 c p j f" "0 \<le> readW 0 1 c p j f"
  by (simp_all add: readW_def resW_cases split: sum.splits)

lemma jobW_cases:
  "jobW 1 0 c p j + jobW 0 1 c p j = 1" "0 \<le> jobW 1 0 c p j" "0 \<le> jobW 0 1 c p j"
  by (simp_all add: jobW_def readW_cases split: sum.splits)

lemma tally_jobW_length:
  "tally (jobW 1 0 c p) jobs + tally (jobW 0 1 c p) jobs = int (length jobs)"
proof (induction jobs)
  case Nil
  show ?case by simp
next
  case (Cons j jobs)
  with jobW_cases(1) [of c p j] show ?case by simp
qed

lemma tally_jobW_nonneg: "0 \<le> tally (jobW 1 0 c p) jobs" "0 \<le> tally (jobW 0 1 c p) jobs"
  by (simp_all add: tally_nonneg jobW_cases)

text \<open>Once everything is gone no goroutine can take a step.\<close>

lemma finished_no_reader_step: "finished s \<Longrightarrow> reader_step c cfg i s = None"
proof (cases "i < length (readers s)")
  case True
  assume "finished s"
  with True have "readers s ! i = R_Done"
    by (simp add: finished_def)
  then show ?thesis
    by (simp add: reader_step_def)
qed (simp add: reader_step_def)

lemma finished_no_proc_step: "finished s \<Longrightarrow> proc_step p k s = None"
proof (cases "k < length (procs s)")
  case True
  assume "finished s"
  with True have "procs s ! k = P_Done"
    by (simp add: finished_def)
  then show ?thesis
    by (simp add: proc_step_def)
qed (simp add: proc_step_def)

lemma finished_no_handoff_step: "finished s \<Longrightarrow> handoff_step i k s = None"
proof (cases "i < length (readers s)")
  case True
  assume "finished s"
  with True have "readers s ! i = R_Done"
    by (simp add: finished_def)
  then show ?thesis
    by (simp add: handoff_step_def)
qed (simp add: handoff_step_def)

lemma finished_no_worker_step: "finished s \<Longrightarrow> worker_step c p cfg jobs a s = None"
  by (cases a)
    (simp_all add: worker_step_def finished_no_reader_step finished_no_proc_step
      finished_no_handoff_step,
      simp_all add: finished_def feeder_step_def sentinel_step_def)

lemma fire_returned_counters:
  assumes I: "pipeline_inv cfg jobs s" and pos: "0 < SFTPReaders cfg" "0 < Workers cfg"
    and R: "returned_counters s" and st: "fire c p cfg jobs a s = Some s'"
  shows "returned_counters s'"
proof (cases "a = Main")
  case True
  with st R show ?thesis
    by (auto simp: fire_def main_step_def returned_counters_def panic_def
        split: if_splits main_pc.splits)
next
  case False
  with st have w: "worker_step c p cfg jobs a s = Some s'"
    by (cases a) (simp_all add: fire_def split: if_splits)
  show ?thesis
  proof (cases "mainpc s")
    case (M_Returned t f)
    from returned_finished [OF I M_Returned pos] w show ?thesis
      by (simp add: finished_no_worker_step)
  qed (use worker_step_frame [OF w] in \<open>simp_all add: same_frame_def returned_counters_def\<close>)
qed

lemma exec_returned_counters:
  assumes pos: "0 < SFTPReaders cfg" "0 < Workers cfg"
    and "pipeline_ok cfg jobs s" and "returned_counters s"
    and "exec (fire c p cfg jobs) sched s = Some s'"
  shows "returned_counters s'"
proof -
  have "returned_counters y"
    if "pipeline_inv cfg jobs x" and "returned_counters x" and "fire c p cfg jobs a x = Some y"
    for a x y
    using that(1) pos that(2,3) by (rule fire_returned_counters)
  from exec_keeps [where P = returned_counters, OF this assms(3-5)] show ?thesis
    by simp
qed

text \<open>
  With positive pool sizes, what the call returns: the number of jobs that fail to open,
  to read or to process, and the number of the others, as \<open>int32\<close> values.
\<close>

lemma TransferFiles_returns:
  assumes "0 < SFTPReaders cfg" and "0 < Workers cfg"
    and "TransferFiles rt cfg c jobs p sched = Some s" and "mainpc s = M_Returned t f"
  shows "t = word_of_int (tally (jobW 0 1 c p) jobs)"
    and "f = word_of_int (tally (jobW 1 0 c p) jobs)"
    and "finished s"
proof -
  from assms(4) have "has_returned (mainpc s)"
    by simp
  note I = TransferFiles_returned_inv [OF assms(3) this]
  note C = TransferFiles_counted [OF assms(3)]
  have "returned_counters (TransferFiles_init rt cfg jobs :: 'a state)"
    by (simp add: returned_counters_def TransferFiles_init_def)
  from exec_returned_counters [OF assms(1,2) ok_init this assms(3) [unfolded TransferFiles_def]]
  have "returned_counters s" .
  with assms(4) have tf: "t = transferred s" "f = failed s"
    by (simp_all add: returned_counters_def)
  show fin: "finished s"
    by (rule returned_finished [OF I assms(4,1,2)])
  from finished_counts [OF fin C] tf
  show "t = word_of_int (tally (jobW 0 1 c p) jobs)"
    and "f = word_of_int (tally (jobW 1 0 c p) jobs)"
    by simp_all
qed

subsection \<open>Every run is finite\<close>

lemma feeder_weight_nonneg: "0 \<le> feeder_weight x"
  by (cases x rule: feeder_weight.cases) simp_all

lemma sentinel_weight_nonneg: "0 \<le> sentinel_weight x"
  by (cases x rule: sentinel_weight.cases) simp_all

lemma reader_weight_nonneg: "0 \<le> reader_weight x"
  by (cases x) simp_all

lemma proc_weight_nonneg: "0 \<le> proc_weight x"
  by (cases x) simp_all

lemma main_weight_nonneg: "0 \<le> main_weight cfg jobs x"
  by (cases x) simp_all

lemma weight_nonneg: "0 \<le> weight cfg jobs s"
  unfolding weight_def
  using main_weight_nonneg [of cfg jobs "mainpc s"] feeder_weight_nonneg [of "feeder s"]
    sentinel_weight_nonneg [of "sentinel s"]
    tally_nonneg [of reader_weight "readers s", OF reader_weight_nonneg]
    tally_nonneg [of proc_weight "procs s", OF proc_weight_nonneg]
  by simp

lemma main_step_weight:
  "\<not> panicked s \<Longrightarrow> main_step cfg jobs s = Some s' \<Longrightarrow> weight cfg jobs s' < weight cfg jobs s"
  using feeder_weight_nonneg [of "feeder s"] sentinel_weight_nonneg [of "sentinel s"]
  unfolding main_step_def weight_def
  by (cases "mainpc s") (auto simp: panic_def split: if_splits)

lemma feeder_step_weight:
  "\<not> panicked s \<Longrightarrow> feeder_step jobs s = Some s' \<Longrightarrow> weight cfg jobs s' < weight cfg jobs s"
  unfolding feeder_step_def weight_def
  by (auto simp: panic_def split: option.splits feeder_pc.splits list.splits if_splits)

lemma sentinel_step_weight:
  "\<not> panicked s \<Longrightarrow> sentinel_step s = Some s' \<Longrightarrow> weight cfg jobs s' < weight cfg jobs s"
  unfolding sentinel_step_def weight_def
  by (auto simp: panic_def split: option.splits sentinel_pc.splits if_splits)

lemma reader_step_weight:
  "\<not> panicked s \<Longrightarrow> reader_step c cfg i s = Some s' \<Longrightarrow> weight cfg jobs s' < weight cfg jobs s"
  unfolding reader_step_def weight_def
  by (auto simp: panic_def readWg_Done_def tally_nth [of i "readers s"]
      split: reader_pc.splits list.splits if_splits sum.splits)

lemma proc_step_weight:
  "\<not> panicked s \<Longrightarrow> proc_step p k s = Some s' \<Longrightarrow> weight cfg jobs s' < weight cfg jobs s"
  unfolding proc_step_def weight_def
  by (auto simp: panic_def processWg_Done_def tally_nth [of k "procs s"]
      split: proc_pc.splits list.splits if_splits option.splits)

lemma handoff_step_weight:
  "handoff_step i k s = Some s' \<Longrightarrow> weight cfg jobs s' < weight cfg jobs s"
  unfolding handoff_step_def weight_def
  by (auto simp: tally_nth [of k "procs s"] tally_nth [of i "readers s"]
      split: reader_pc.splits proc_pc.splits if_splits)

lemma fire_weight: "fire c p cfg jobs a s = Some s' \<Longrightarrow> weight cfg jobs s' < weight cfg jobs s"
  by (cases a)
    (auto simp: fire_def worker_step_def split: if_splits
      intro: main_step_weight feeder_step_weight sentinel_step_weight reader_step_weight
        proc_step_weight handoff_step_weight)

lemma exec_weight:
  "exec (fire c p cfg jobs) sched s = Some s'
   \<Longrightarrow> int (length sched) + weight cfg jobs s' \<le> weight cfg jobs s"
proof (induction sched arbitrary: s)
  case Nil
  then show ?case by simp
next
  case (Cons a sched)
  from Cons.prems obtain s1 where 1: "fire c p cfg jobs a s = Some s1"
    and 2: "exec (fire c p cfg jobs) sched s1 = Some s'"
    by (auto split: option.splits)
  from Cons.IH [OF 2] fire_weight [OF 1] show ?case
    by simp
qed

subsection \<open>Some goroutine can always step until the call returns\<close>

lemma tally_pos_nth:
  "(\<And>x. (0::int) \<le> g x) \<Longrightarrow> 0 < tally g xs \<Longrightarrow> \<exists>i < length xs. 0 < g (xs ! i)"
proof -
  assume nn: "\<And>x. (0::int) \<le> g x" and pos: "0 < tally g xs"
  have "\<not> (\<forall>x \<in> set xs. g x = 0)"
    using pos tally_all_zero [of xs g] by auto
  then obtain x where "x \<in> set xs" and "g x \<noteq> 0"
    by blast
  with nn [of x] obtain i where "i < length xs" and "0 < g (xs ! i)"
    by (auto simp: in_set_conv_nth)
  then show ?thesis by blast
qed

lemma live_reader_obtain:
  assumes "0 < tally reader_live (readers s)"
  obtains i where "i < length (readers s)" and "readers s ! i \<noteq> R_Done"
proof -
  from tally_pos_nth [OF reader_live_nonneg assms]
  obtain i where "i < length (readers s)" and "0 < reader_live (readers s ! i)"
    by blast
  then have "i < length (readers s)" and "readers s ! i \<noteq> R_Done"
    by auto
  then show ?thesis by (rule that)
qed

lemma live_proc_obtain:
  assumes "0 < tally proc_live (procs s)"
  obtains k where "k < length (procs s)" and "procs s ! k \<noteq> P_Done"
proof -
  from tally_pos_nth [OF proc_live_nonneg assms]
  obtain k where "k < length (procs s)" and "0 < proc_live (procs s ! k)"
    by blast
  then have "k < length (procs s)" and "procs s ! k \<noteq> P_Done"
    by auto
  then show ?thesis by (rule that)
qed

text \<open>The feeder is never blocked: \<open>jobsChan\<close> has room for every job.\<close>

lemma feeder_enabled:
  assumes "inv_jobs jobs s" and "feeder s \<noteq> None" and "\<not> jobsClosed s"
  shows "feeder_step jobs s \<noteq> None"
proof (rule feeder_cases [of s])
  fix rest
  assume F: "feeder s = Some (F_Loop rest)"
  with assms(1) have "length (jobsChan s) + length rest \<le> length jobs"
    by (simp add: inv_jobs_def)
  with F assms(3) show ?thesis
    by (cases rest) (simp_all add: feeder_step_def)
qed (use assms in \<open>simp_all add: inv_jobs_def\<close>)

text \<open>
  A fetch worker that is not gone can take a step, unless it waits for a job while the
  feeder still runs, or for a process worker to take its result.
\<close>

lemma reader_enabled:
  assumes "pipeline_inv cfg jobs s" and "feeder s \<noteq> None"
    and "i < length (readers s)" and "readers s ! i \<noteq> R_Done"
    and "resultsChan s = []" and "resultsCloses s = 0"
    and "k < length (procs s)" and "procs s ! k = P_Range"
  shows "\<exists>a. fire c p cfg jobs a s \<noteq> None"
proof -
  from assms(1) have np: "\<not> panicked s" and J: "inv_jobs jobs s"
    by (simp_all add: pipeline_inv_def)
  show ?thesis
  proof (cases "readers s ! i")
    case R_Range
    show ?thesis
    proof (cases "jobsChan s = [] \<and> \<not> jobsClosed s")
      case True
      with feeder_enabled [OF J assms(2)] np have "fire c p cfg jobs Feeder s \<noteq> None"
        by (simp add: fire_def worker_step_def)
      then show ?thesis ..
    next
      case False
      with R_Range assms(3) np have "fire c p cfg jobs (Reader i) s \<noteq> None"
        by (auto simp: fire_def worker_step_def reader_step_def split: list.splits)
      then show ?thesis ..
    qed
  next
    case (R_Send r)
    with assms np have "fire c p cfg jobs (Handoff i k) s \<noteq> None"
      by (simp add: fire_def worker_step_def handoff_step_def)
    then show ?thesis ..
  next
    case R_Done
    with assms(4) show ?thesis by simp
  qed (use assms(3) np in
      \<open>auto simp: fire_def worker_step_def reader_step_def split: sum.splits
        intro!: exI [of _ "Reader i"]\<close>)
qed

lemma progress:
  assumes I: "pipeline_inv cfg jobs s" and nr: "\<not> has_returned (mainpc s)"
  shows "\<exists>a. fire c p cfg jobs a s \<noteq> None"
proof (cases "main_step cfg jobs s")
  case (Some s')
  with I have "fire c p cfg jobs Main s \<noteq> None"
    by (simp add: fire_def pipeline_inv_def)
  then show ?thesis ..
next
  case None
  with nr have W: "mainpc s = M_Wait" and pw: "processWg s \<noteq> 0"
    by (auto simp: main_step_def split: main_pc.splits if_splits)
  from I have np: "\<not> panicked s" and M: "inv_main cfg s" and G: "inv_wg s"
    and J: "inv_jobs jobs s" and R: "inv_results s"
    by (simp_all add: pipeline_inv_def)
  from M W have fs: "feeder s \<noteq> None" and ss: "sentinel s \<noteq> None"
    by (simp_all add: inv_main_def)
  from G W pw tally_nonneg [of proc_live "procs s", OF proc_live_nonneg]
  have "0 < tally proc_live (procs s)"
    by (simp add: inv_wg_def)
  then obtain k where k: "k < length (procs s)" and live: "procs s ! k \<noteq> P_Done"
    by (rule live_proc_obtain)
  show ?thesis
  proof (cases "procs s ! k = P_Range \<and> resultsChan s = [] \<and> resultsCloses s = 0")
    case False
    with k live np have "fire c p cfg jobs (Proc k) s \<noteq> None"
      by (cases "procs s ! k")
        (auto simp: fire_def worker_step_def proc_step_def split: list.splits option.splits)
    then show ?thesis ..
  next
    case True
    then have pk: "procs s ! k = P_Range" and rc: "resultsChan s = []"
      and cl: "resultsCloses s = 0"
      by simp_all
    show ?thesis
    proof (cases "sentinel_step s")
      case (Some s')
      with np have "fire c p cfg jobs Sentinel s \<noteq> None"
        by (simp add: fire_def worker_step_def)
      then show ?thesis ..
    next
      case None
      with ss R cl have "readWg s \<noteq> 0"
        by - (rule sentinel_cases [of s],
            auto simp: sentinel_step_def inv_results_def split: if_splits)
      with G W tally_nonneg [of reader_live "readers s", OF reader_live_nonneg]
      have "0 < tally reader_live (readers s)"
        by (simp add: inv_wg_def)
      then obtain i where "i < length (readers s)" and "readers s ! i \<noteq> R_Done"
        by (rule live_reader_obtain)
      then show ?thesis
        by (rule reader_enabled [OF I fs _ _ rc cl k pk])
    qed
  qed
qed

subsection \<open>The call returns\<close>

lemma TransferFiles_always_returns:
  assumes "within_limits rt cfg jobs"
  shows "always_returns rt cfg c jobs p"
  unfolding always_returns_def
proof (intro allI impI conjI)
  fix sched and s :: "'a state"
  assume run: "TransferFiles rt cfg c jobs p sched = Some s"
  have "weight cfg jobs (TransferFiles_init rt cfg jobs :: 'a state) = run_bound cfg jobs"
    using assms by (simp add: weight_def TransferFiles_init_def run_bound_def within_limits_def)
  with exec_weight [OF run [unfolded TransferFiles_def]] weight_nonneg [of cfg jobs s]
  show "int (length sched) \<le> run_bound cfg jobs"
    by simp
  note I = TransferFiles_inv [OF assms run]
  then show "\<not> panicked s"
    by (simp add: pipeline_inv_def)
  from progress [OF I]
  show "has_returned (mainpc s) \<or> (\<exists>a. fire c p cfg jobs a s \<noteq> None)"
    by blast
qed

subsection \<open>The results handed to the processing function\<close>

lemma jobR_Open:
  "Open c (RemotePath j) = Inl e \<Longrightarrow> jobR c j = {#}"
  "Open c (RemotePath j) = Inr f \<Longrightarrow> jobR c j = readR c j f"
  by (simp_all add: jobR_def)

lemma readR_ReadAll:
  "ReadAll c f = Inl e \<Longrightarrow> readR c j f = {#}"
  "ReadAll c f = Inr d \<Longrightarrow> readR c j f = {#\<lparr>FileResult.ID = FileJob.ID j, Data = d\<rparr>#}"
  by (simp_all add: readR_def)

lemma feeder_step_handed: "feeder_step jobs s = Some s' \<Longrightarrow> handed c jobs s' = handed c jobs s"
  unfolding feeder_step_def handed_def
  by (auto simp: pendR_def panic_def split: option.splits feeder_pc.splits list.splits if_splits)

lemma reader_step_handed:
  "reader_step c cfg i s = Some s' \<Longrightarrow> handed c jobs s' = handed c jobs s"
  unfolding reader_step_def handed_def
  by (auto simp: pendR_def panic_def readWg_Done_def tally_nth [of i "readers s"]
      jobR_Open readR_ReadAll
      split: reader_pc.splits list.splits if_splits sum.splits)

lemma proc_step_handed: "proc_step p k s = Some s' \<Longrightarrow> handed c jobs s' = handed c jobs s"
  unfolding proc_step_def handed_def
  by (auto simp: pendR_def panic_def processWg_Done_def tally_nth [of k "procs s"]
      split: proc_pc.splits list.splits if_splits option.splits)

lemma handoff_step_handed: "handoff_step i k s = Some s' \<Longrightarrow> handed c jobs s' = handed c jobs s"
  unfolding handoff_step_def handed_def
  by (auto simp: pendR_def tally_nth [of k "procs s"] tally_nth [of i "readers s"]
      split: proc_pc.splits reader_pc.splits if_splits)

lemma sentinel_step_handed: "sentinel_step s = Some s' \<Longrightarrow> handed c jobs s' = handed c jobs s"
  unfolding sentinel_step_def handed_def
  by (auto simp: pendR_def panic_def split: sentinel_pc.splits if_splits option.splits)

lemma main_step_handed:
  "inv_main cfg s \<Longrightarrow> main_step cfg jobs s = Some s' \<Longrightarrow> handed c jobs s' = handed c jobs s"
  unfolding main_step_def handed_def inv_main_def
  by (cases "mainpc s") (auto simp: pendR_def panic_def split: if_splits)

lemma fire_handed:
  "pipeline_inv cfg jobs s \<Longrightarrow> fire c p cfg jobs a s = Some s'
   \<Longrightarrow> handed c jobs s' = handed c jobs s"
  by (cases a)
    (auto simp: fire_def worker_step_def pipeline_inv_def split: if_splits
      intro: main_step_handed feeder_step_handed reader_step_handed handoff_step_handed
        sentinel_step_handed proc_step_handed)

lemma exec_handed:
  assumes "pipeline_ok cfg jobs s" and "exec (fire c p cfg jobs) sched s = Some s'"
  shows "handed c jobs s' = handed c jobs s"
proof -
  have "handed c jobs y = handed c jobs s"
    if "pipeline_inv cfg jobs x" and "handed c jobs x = handed c jobs s"
      and "fire c p cfg jobs a x = Some y" for a x y
    using fire_handed [OF that(1,3)] that(2) by simp
  from exec_keeps [where P = "\<lambda>x. handed c jobs x = handed c jobs s", OF this assms(1) _ assms(2)]
  show ?thesis by simp
qed

lemma TransferFiles_handed:
  assumes "TransferFiles rt cfg c jobs p sched = Some s"
  shows "mset (processed s) + pendR c jobs s = tally (jobR c) jobs"
  using exec_handed [OF ok_init assms [unfolded TransferFiles_def]]
  by (simp add: handed_def pendR_def TransferFiles_init_def)

lemma readerR_Done: "\<forall>r \<in> set xs. r = R_Done \<Longrightarrow> tally (readerR c) xs = {#}"
  by (induction xs) auto

lemma procR_Done: "\<forall>w \<in> set xs. w = P_Done \<Longrightarrow> tally procR xs = {#}"
  by (induction xs) auto

lemma finished_pendR: "finished s \<Longrightarrow> pendR c jobs s = {#}"
  by (simp add: finished_def pendR_def readerR_Done procR_Done)

lemma in_jobR:
  "r \<in># jobR c job \<Longrightarrow>
     \<exists>f. Open c (RemotePath job) = Inr f \<and> ReadAll c f = Inr (Data r)
       \<and> FileResult.ID r = FileJob.ID job"
  by (auto simp: jobR_def readR_def split: sum.splits)

lemma in_tally_jobR:
  "r \<in># tally (jobR c) jobs \<Longrightarrow> \<exists>job \<in> set jobs. r \<in># jobR c job"
  by (induction jobs) auto

subsection \<open>Counters that stay zero, counters that do not wrap\<close>

lemma sint_int32_small:
  "0 \<le> x \<Longrightarrow> x < 2147483648 \<Longrightarrow> sint (word_of_int x :: int32) = x"
  by (simp add: int_word_sint)

lemma can_return:
  assumes lim: "SFTPReaders cfg \<le> maxInt32" "Workers cfg \<le> maxInt32"
  shows "pipeline_inv cfg jobs s \<Longrightarrow>
     \<exists>sched s'. exec (fire c p cfg jobs) sched s = Some s' \<and> has_returned (mainpc s')"
proof (induction "nat (weight cfg jobs s)" arbitrary: s rule: less_induct)
  case less
  show ?case
  proof (cases "has_returned (mainpc s)")
    case True
    then have "exec (fire c p cfg jobs) [] s = Some s \<and> has_returned (mainpc s)"
      by simp
    then show ?thesis by blast
  next
    case False
    from progress [OF less.prems False] obtain a s1 where 1: "fire c p cfg jobs a s = Some s1"
      by blast
    from fire_weight [OF 1] weight_nonneg [of cfg jobs s1]
    have "nat (weight cfg jobs s1) < nat (weight cfg jobs s)"
      by simp
    from less.hyps [OF this fire_inv_limits [OF less.prems lim 1]]
    obtain sched s' where "exec (fire c p cfg jobs) sched s1 = Some s'"
      and "has_returned (mainpc s')"
      by blast
    with 1 have "exec (fire c p cfg jobs) (a # sched) s = Some s' \<and> has_returned (mainpc s')"
      by simp
    then show ?thesis by blast
  qed
qed

lemma TransferFiles_can_return:
  assumes "within_limits rt cfg jobs"
  obtains sched s t f where "TransferFiles rt cfg c jobs p sched = Some s"
    and "mainpc s = M_Returned t f"
proof -
  from assms have m: "makes_succeed rt cfg jobs"
    and lim: "SFTPReaders cfg \<le> maxInt32" "Workers cfg \<le> maxInt32"
    by (simp_all add: within_limits_def)
  from can_return [OF lim inv_init [OF m], of c p]
  obtain sched s where run: "TransferFiles rt cfg c jobs p sched = Some s"
    and "has_returned (mainpc s)"
    unfolding TransferFiles_def by blast
  then obtain t f where "mainpc s = M_Returned t f"
    by (cases "mainpc s") simp_all
  with run show ?thesis by (rule that)
qed

lemma resW_nonneg: "0 \<le> wF \<Longrightarrow> 0 \<le> wT \<Longrightarrow> 0 \<le> resW wF wT p r"
  by (simp add: resW_def split: option.splits)

lemma readW_nonneg: "0 \<le> wF \<Longrightarrow> 0 \<le> wT \<Longrightarrow> 0 \<le> readW wF wT c p j f"
  by (simp add: readW_def resW_nonneg split: sum.splits)

lemma jobW_nonneg: "0 \<le> wF \<Longrightarrow> 0 \<le> wT \<Longrightarrow> 0 \<le> jobW wF wT c p j"
  by (simp add: jobW_def readW_nonneg split: sum.splits)

lemma readerW_nonneg: "0 \<le> wF \<Longrightarrow> 0 \<le> wT \<Longrightarrow> 0 \<le> readerW wF wT c p r"
  by (cases r) (simp_all add: jobW_nonneg readW_nonneg resW_nonneg)

lemma procW_nonneg: "0 \<le> wF \<Longrightarrow> 0 \<le> wT \<Longrightarrow> 0 \<le> procW wF wT p w"
  by (cases w) (simp_all add: resW_nonneg)

lemma pend_nonneg: "0 \<le> wF \<Longrightarrow> 0 \<le> wT \<Longrightarrow> 0 \<le> pend wF wT c p jobs s"
  unfolding pend_def
  by (intro add_nonneg_nonneg tally_nonneg jobW_nonneg readerW_nonneg resW_nonneg procW_nonneg)

text \<open>A counter whose increments never come stays zero.\<close>

lemma counted_failed_zero:
  "counted c p jobs s \<Longrightarrow> tally (jobW 1 0 c p) jobs = 0 \<Longrightarrow> failed s = 0"
  using pend_nonneg [of 1 0 c p jobs s] by (simp add: counted_def)

lemma counted_transferred_zero:
  "counted c p jobs s \<Longrightarrow> tally (jobW 0 1 c p) jobs = 0 \<Longrightarrow> transferred s = 0"
  using pend_nonneg [of 0 1 c p jobs s] by (simp add: counted_def)

lemma TransferFiles_transferred_zero:
  assumes "TransferFiles rt cfg c jobs p sched = Some s" and "tally (jobW 0 1 c p) jobs = 0"
  shows "transferred s = 0"
  by (rule counted_transferred_zero [OF TransferFiles_counted [OF assms(1)] assms(2)])

lemma TransferFiles_failed_zero:
  assumes "TransferFiles rt cfg c jobs p sched = Some s" and "tally (jobW 1 0 c p) jobs = 0"
  shows "failed s = 0"
  by (rule counted_failed_zero [OF TransferFiles_counted [OF assms(1)] assms(2)])

lemma tally_const: "(\<And>x. x \<in> set xs \<Longrightarrow> g x = (k::int)) \<Longrightarrow> tally g xs = int (length xs) * k"
  by (induction xs) (simp_all add: algebra_simps)

lemma returned_exact:
  assumes "0 < SFTPReaders cfg" and "0 < Workers cfg"
    and "TransferFiles rt cfg c jobs p sched = Some s" and "mainpc s = M_Returned t f"
    and "length jobs < 2 ^ 31"
  shows "sint t = tally (jobW 0 1 c p) jobs" and "sint f = tally (jobW 1 0 c p) jobs"
proof -
  note r = TransferFiles_returns(1,2) [OF assms(1-4)]
  note sum = tally_jobW_length [of c p jobs]
  note nn = tally_jobW_nonneg [of c p jobs]
  from assms(5) sum nn have "tally (jobW 0 1 c p) jobs < 2147483648"
    and "tally (jobW 1 0 c p) jobs < 2147483648"
    by simp_all
  with nn show "sint t = tally (jobW 0 1 c p) jobs" and "sint f = tally (jobW 1 0 c p) jobs"
    by (simp_all add: r sint_int32_small)
qed

lemma all_fail: "(\<And>j. j \<in> set jobs \<Longrightarrow> jobW 1 0 c p j = 1) \<Longrightarrow>
    tally (jobW 1 0 c p) jobs = int (length jobs) \<and> tally (jobW 0 1 c p) jobs = 0"
  using tally_const [of jobs "jobW 1 0 c p" 1] tally_jobW_length [of c p jobs]
  by simp

lemma all_succeed: "(\<And>j. j \<in> set jobs \<Longrightarrow> jobW 0 1 c p j = 1) \<Longrightarrow>
    tally (jobW 0 1 c p) jobs = int (length jobs) \<and> tally (jobW 1 0 c p) jobs = 0"
  using tally_const [of jobs "jobW 0 1 c p" 1] tally_jobW_length [of c p jobs]
  by simp

lemma all_open_fail_no_results:
  "(\<And>j. j \<in> set jobs \<Longrightarrow> \<exists>e. Open c (RemotePath j) = Inl e) \<Longrightarrow> tally (jobR c) jobs = {#}"
proof (induction jobs)
  case Nil
  show ?case by simp
next
  case (Cons j jobs)
  from Cons.prems [of j] obtain e where "Open c (RemotePath j) = Inl e"
    by auto
  then have "jobR c j = {#}"
    by (simp add: jobR_def)
  with Cons show ?case
    by simp
qed

subsection \<open>Without fetch workers\<close>

lemma idle_init: "idle (TransferFiles_init rt cfg jobs)"
  by (simp add: idle_def TransferFiles_init_def)

lemma main_step_idle:
  "SFTPReaders cfg \<le> 0 \<Longrightarrow> idle s \<Longrightarrow> main_step cfg jobs s = Some s' \<Longrightarrow> idle s'"
  unfolding main_step_def idle_def
  by (cases "mainpc s") (auto simp: nth_append panic_def split: if_splits)

lemma feeder_step_idle: "idle s \<Longrightarrow> feeder_step jobs s = Some s' \<Longrightarrow> idle s'"
  unfolding feeder_step_def idle_def
  by (auto simp: panic_def split: option.splits feeder_pc.splits list.splits if_splits)

lemma sentinel_step_idle: "idle s \<Longrightarrow> sentinel_step s = Some s' \<Longrightarrow> idle s'"
  unfolding sentinel_step_def idle_def
  by (auto simp: panic_def split: option.splits sentinel_pc.splits if_splits)

lemma reader_step_idle: "idle s \<Longrightarrow> reader_step c cfg i s = Some s' \<Longrightarrow> idle s'"
  by (simp add: reader_step_def idle_def)

lemma handoff_step_idle: "idle s \<Longrightarrow> handoff_step i k s = Some s' \<Longrightarrow> idle s'"
  by (simp add: handoff_step_def idle_def)

lemma proc_step_idle:
  assumes "idle s" and "proc_step p k s = Some s'"
  shows "idle s'"
proof -
  from assms(2) have k: "k < length (procs s)"
    by (simp add: proc_step_def split: if_splits)
  with assms(1) have pk: "procs s ! k = P_Range \<or> procs s ! k = P_Done"
    and rc: "resultsChan s = []"
    by (simp_all add: idle_def)
  with assms(2) k have "s' = processWg_Done (s\<lparr>procs := (procs s)[k := P_Done]\<rparr>)"
    by (auto simp: proc_step_def split: if_splits)
  with assms(1) k show ?thesis
    by (auto simp: idle_def processWg_Done_def panic_def nth_list_update split: if_splits)
qed

lemma fire_idle:
  "SFTPReaders cfg \<le> 0 \<Longrightarrow> idle s \<Longrightarrow> fire c p cfg jobs a s = Some s' \<Longrightarrow> idle s'"
  by (cases a)
    (auto simp: fire_def worker_step_def split: if_splits
      intro: main_step_idle feeder_step_idle sentinel_step_idle reader_step_idle
        handoff_step_idle proc_step_idle)

lemma exec_idle:
  "SFTPReaders cfg \<le> 0 \<Longrightarrow> idle s \<Longrightarrow> exec (fire c p cfg jobs) sched s = Some s'
   \<Longrightarrow> idle s'"
proof (induction sched arbitrary: s)
  case Nil
  then show ?case by simp
next
  case (Cons a sched)
  from Cons.prems(3) obtain s1 where 1: "fire c p cfg jobs a s = Some s1"
    and 2: "exec (fire c p cfg jobs) sched s1 = Some s'"
    by (auto split: option.splits)
  from Cons.IH [OF Cons.prems(1) fire_idle [OF Cons.prems(1,2) 1] 2] show ?case .
qed

lemma TransferFiles_idle:
  "SFTPReaders cfg \<le> 0 \<Longrightarrow> TransferFiles rt cfg c jobs p sched = Some s \<Longrightarrow> idle s"
  unfolding TransferFiles_def by (rule exec_idle [OF _ idle_init])

lemma TransferFiles_no_panic:
  assumes "within_limits rt cfg jobs" and "TransferFiles rt cfg c jobs p sched = Some s"
  shows "\<not> panicked s"
  using TransferFiles_inv [OF assms] by (simp add: pipeline_inv_def)

subsection \<open>TransferFilesMock simulates TransferFiles and conversely\<close>

lemma mock_fire_exec:
  assumes "mock_fire c p cfg jobs a s = Some s'"
  shows "\<exists>sched. exec (fire c p cfg jobs) sched s = Some s'"
proof (cases "a = Main")
  case False
  with assms have "exec (fire c p cfg jobs) [a] s = Some s'"
    by (cases a) (auto simp: mock_fire_def fire_def split: if_splits)
  then show ?thesis ..
next
  case True
  with assms have np: "\<not> panicked s" and m: "mock_main_step cfg jobs s = Some s'"
    by (simp_all add: mock_fire_def split: if_splits)
  show ?thesis
  proof (cases "main_step cfg jobs s = Some s'")
    case True
    with np have "exec (fire c p cfg jobs) [Main] s = Some s'"
      by (simp add: fire_def)
    then show ?thesis ..
  next
    case False
    with m np have "exec (fire c p cfg jobs) [Main, Main] s = Some s'"
      by (cases "mainpc s")
        (auto simp: fire_def main_step_def mock_main_step_def split: if_splits)
    then show ?thesis ..
  qed
qed

lemma mock_exec_exec:
  "exec (mock_fire c p cfg jobs) sched s = Some s'
   \<Longrightarrow> \<exists>sched'. exec (fire c p cfg jobs) sched' s = Some s'"
proof (induction sched arbitrary: s)
  case Nil
  then have "exec (fire c p cfg jobs) [] s = Some s'"
    by simp
  then show ?case ..
next
  case (Cons a sched)
  from Cons.prems obtain s1 where 1: "mock_fire c p cfg jobs a s = Some s1"
    and 2: "exec (mock_fire c p cfg jobs) sched s1 = Some s'"
    by (auto split: option.splits)
  from mock_fire_exec [OF 1] obtain xs where "exec (fire c p cfg jobs) xs s = Some s1"
    by blast
  moreover from Cons.IH [OF 2] obtain ys where "exec (fire c p cfg jobs) ys s1 = Some s'"
    by blast
  ultimately have "exec (fire c p cfg jobs) (xs @ ys) s = Some s'"
    by (simp add: exec_append)
  then show ?case ..
qed

lemma worker_step_shift_read:
  assumes "worker_step c p cfg jobs a s = Some s'" and "sentinel s = None"
    and "(\<exists>i. a = Reader i) \<longrightarrow> 2 \<le> readWg s"
  shows "worker_step c p cfg jobs a (s\<lparr>readWg := readWg s - 1, mainpc := m\<rparr>)
    = Some (s'\<lparr>readWg := readWg s' - 1, mainpc := m\<rparr>)"
proof (cases a)
  case Main
  with assms show ?thesis by (simp add: worker_step_def)
next
  case Feeder
  with assms show ?thesis
    by (auto simp: worker_step_def feeder_step_def panic_def
        split: option.splits feeder_pc.splits list.splits if_splits)
next
  case (Reader i)
  with assms show ?thesis
    by (auto simp: worker_step_def reader_step_def panic_def readWg_Done_def
        split: reader_pc.splits list.splits if_splits sum.splits)
next
  case (Handoff i k)
  with assms show ?thesis
    by (auto simp: worker_step_def handoff_step_def
        split: reader_pc.splits proc_pc.splits if_splits)
next
  case Sentinel
  with assms show ?thesis
    by (simp add: worker_step_def sentinel_step_def)
next
  case (Proc k)
  with assms show ?thesis
    by (auto simp: worker_step_def proc_step_def panic_def processWg_Done_def
        split: proc_pc.splits list.splits if_splits option.splits)
qed

lemma worker_step_shift_process:
  assumes "worker_step c p cfg jobs a s = Some s'"
    and "(\<exists>k. a = Proc k) \<longrightarrow> 2 \<le> processWg s"
  shows "worker_step c p cfg jobs a (s\<lparr>processWg := processWg s - 1, mainpc := m\<rparr>)
    = Some (s'\<lparr>processWg := processWg s' - 1, mainpc := m\<rparr>)"
proof (cases a)
  case Main
  with assms show ?thesis by (simp add: worker_step_def)
next
  case Feeder
  with assms show ?thesis
    by (auto simp: worker_step_def feeder_step_def panic_def
        split: option.splits feeder_pc.splits list.splits if_splits)
next
  case (Reader i)
  with assms show ?thesis
    by (auto simp: worker_step_def reader_step_def panic_def readWg_Done_def
        split: reader_pc.splits list.splits if_splits sum.splits)
next
  case (Handoff i k)
  with assms show ?thesis
    by (auto simp: worker_step_def handoff_step_def
        split: reader_pc.splits proc_pc.splits if_splits)
next
  case Sentinel
  with assms show ?thesis
    by (auto simp: worker_step_def sentinel_step_def panic_def
        split: option.splits sentinel_pc.splits if_splits)
next
  case (Proc k)
  with assms show ?thesis
    by (auto simp: worker_step_def proc_step_def panic_def processWg_Done_def
        split: proc_pc.splits list.splits if_splits option.splits)
qed

lemma unstarted_init:
  "unstarted (TransferFiles_init rt cfg jobs) = TransferFiles_init rt cfg jobs"
  by (simp add: unstarted_def TransferFiles_init_def)

lemma unstarted_returned: "mainpc s = M_Returned t f \<Longrightarrow> unstarted s = s"
  by (simp add: unstarted_def)

lemma live_reader_tally:
  assumes "i < length xs" and "xs ! i \<noteq> R_Done"
  shows "1 \<le> tally reader_live xs"
proof -
  from assms(2) have "reader_live (xs ! i) = 1"
    by (cases "xs ! i") auto
  with assms(1) tally_except_reader_live [of i xs] show ?thesis
    by (simp add: tally_nth [of i xs])
qed

lemma live_proc_tally:
  assumes "k < length xs" and "xs ! k \<noteq> P_Done"
  shows "1 \<le> tally proc_live xs"
proof -
  from assms(2) have "proc_live (xs ! k) = 1"
    by (cases "xs ! k") auto
  with assms(1) tally_except_proc_live [of k xs] show ?thesis
    by (simp add: tally_nth [of k xs])
qed

lemma fire_unstarted:
  assumes I: "pipeline_inv cfg jobs s" and st: "fire c p cfg jobs a s = Some s'"
  shows "unstarted s' = unstarted s
    \<or> mock_fire c p cfg jobs a (unstarted s) = Some (unstarted s')"
proof (cases "a = Main")
  case True
  with st I have "main_step cfg jobs s = Some s'" and "main_ok cfg (mainpc s)"
    and "\<not> panicked s" and "readWg s \<le> maxInt32" and "processWg s \<le> maxInt32"
    by (simp_all add: fire_def pipeline_inv_def inv_main_def inv_wg_def split: if_splits)
  with True show ?thesis
    by (cases "mainpc s")
      (auto simp: main_step_def unstarted_def mock_fire_def mock_main_step_def panic_def
        split: if_splits)
next
  case False
  with st have np: "\<not> panicked s" and w: "worker_step c p cfg jobs a s = Some s'"
    by (cases a; simp add: fire_def split: if_splits)+
  from worker_step_frame [OF w] have pc: "mainpc s' = mainpc s"
    by (simp add: same_frame_def)
  from False np have mf: "mock_fire c p cfg jobs a x = worker_step c p cfg jobs a x"
    if "\<not> panicked x" for x
    using that by (cases a) (simp_all add: mock_fire_def)
  from I have G: "inv_wg s" and M: "inv_main cfg s"
    by (simp_all add: pipeline_inv_def)
  show ?thesis
  proof (cases "mainpc s")
    case (M_ReadGo i)
    with M have sn: "sentinel s = None"
      by (simp add: inv_main_def)
    have "2 \<le> readWg s" if "a = Reader j" for j
    proof -
      from w that have "j < length (readers s)" and "readers s ! j \<noteq> R_Done"
        by (auto simp: worker_step_def reader_step_def split: if_splits)
      from live_reader_tally [OF this] G M_ReadGo show ?thesis
        by (simp add: inv_wg_def)
    qed
    then have "(\<exists>j. a = Reader j) \<longrightarrow> 2 \<le> readWg s"
      by blast
    from worker_step_shift_read [OF w sn this, of "M_ReadLoop i"] np M_ReadGo pc
    show ?thesis
      by (simp add: unstarted_def mf)
  next
    case (M_ProcGo i)
    have "2 \<le> processWg s" if "a = Proc k" for k
    proof -
      from w that have "k < length (procs s)" and "procs s ! k \<noteq> P_Done"
        by (auto simp: worker_step_def proc_step_def split: if_splits)
      from live_proc_tally [OF this] G M_ProcGo show ?thesis
        by (simp add: inv_wg_def)
    qed
    then have "(\<exists>k. a = Proc k) \<longrightarrow> 2 \<le> processWg s"
      by blast
    from worker_step_shift_process [OF w this, of "M_ProcLoop i"] np M_ProcGo pc
    show ?thesis
      by (simp add: unstarted_def mf)
  qed (use pc np w mf in \<open>simp_all add: unstarted_def\<close>)
qed

lemma exec_unstarted:
  "pipeline_ok cfg jobs s \<Longrightarrow> exec (fire c p cfg jobs) sched s = Some s'
   \<Longrightarrow> \<exists>sched'. exec (mock_fire c p cfg jobs) sched' (unstarted s) = Some (unstarted s')"
proof (induction sched arbitrary: s)
  case Nil
  then have "exec (mock_fire c p cfg jobs) [] (unstarted s) = Some (unstarted s')"
    by simp
  then show ?case ..
next
  case (Cons a sched)
  from Cons.prems(2) obtain s1 where 1: "fire c p cfg jobs a s = Some s1"
    and 2: "exec (fire c p cfg jobs) sched s1 = Some s'"
    by (auto split: option.splits)
  from 1 have "\<not> panicked s"
    by (simp add: fire_def split: if_splits)
  with Cons.prems(1) have I: "pipeline_inv cfg jobs s"
    by (rule ok_inv)
  from Cons.IH [OF fire_ok [OF Cons.prems(1) 1] 2]
  obtain ys where ys: "exec (mock_fire c p cfg jobs) ys (unstarted s1) = Some (unstarted s')"
    by blast
  from fire_unstarted [OF I 1] show ?case
  proof
    assume "unstarted s1 = unstarted s"
    with ys show ?thesis by auto
  next
    assume "mock_fire c p cfg jobs a (unstarted s) = Some (unstarted s1)"
    with ys have "exec (mock_fire c p cfg jobs) (a # ys) (unstarted s) = Some (unstarted s')"
      by simp
    then show ?thesis ..
  qed
qed

subsection \<open>After the first step, after the return\<close>

lemma worker_step_unstarted:
  assumes "inv_main cfg s" and "mainpc s = M_GoFeeder"
  shows "worker_step c p cfg jobs a s = None"
proof -
  from assms have "feeder s = None" and "sentinel s = None" and "readers s = []"
    and "procs s = []"
    by (simp_all add: inv_main_def)
  then show ?thesis
    by (cases a)
      (simp_all add: worker_step_def feeder_step_def reader_step_def handoff_step_def
        sentinel_step_def proc_step_def)
qed

lemma fire_past_start:
  assumes "pipeline_inv cfg jobs s" and "fire c p cfg jobs a s = Some s'"
  shows "mainpc s' \<noteq> M_GoFeeder"
proof (cases "a = Main")
  case True
  with assms have "main_step cfg jobs s = Some s'"
    by (simp add: fire_def pipeline_inv_def)
  then show ?thesis
    by (auto simp: main_step_def panic_def split: main_pc.splits if_splits)
next
  case False
  with assms have w: "worker_step c p cfg jobs a s = Some s'"
    by (cases a) (simp_all add: fire_def pipeline_inv_def)
  from assms(1) have "inv_main cfg s"
    by (simp add: pipeline_inv_def)
  from worker_step_unstarted [OF this, of c p jobs a] w have "mainpc s \<noteq> M_GoFeeder"
    by auto
  with worker_step_frame [OF w] show ?thesis
    by (simp add: same_frame_def)
qed

lemma TransferFiles_past_start:
  assumes "TransferFiles rt cfg c jobs p sched = Some s" and "sched \<noteq> []"
  shows "mainpc s \<noteq> M_GoFeeder"
proof -
  from assms(2) obtain a rest where sched: "sched = a # rest"
    by (cases sched) simp_all
  let ?init = "TransferFiles_init rt cfg jobs :: 'a state"
  from assms(1) sched obtain s1 where 1: "fire c p cfg jobs a ?init = Some s1"
    and 2: "exec (fire c p cfg jobs) rest s1 = Some s"
    by (auto simp: TransferFiles_def split: option.splits)
  from 1 have "\<not> panicked ?init"
    by (simp add: fire_def split: if_splits)
  with ok_init have "pipeline_inv cfg jobs ?init"
    by (rule ok_inv)
  from fire_past_start [OF this 1] have P: "mainpc s1 \<noteq> M_GoFeeder" .
  have "mainpc y \<noteq> M_GoFeeder"
    if "pipeline_inv cfg jobs x" and "fire c p cfg jobs b x = Some y" for b x y
    using that by (rule fire_past_start)
  from exec_keeps [where P = "\<lambda>x. mainpc x \<noteq> M_GoFeeder", OF this fire_ok [OF ok_init 1] P 2]
  show ?thesis by simp
qed

lemma TransferFiles_feeder_started:
  assumes "TransferFiles rt cfg c jobs p sched = Some s" and "sched \<noteq> []"
  shows "feeder s \<noteq> None"
proof -
  from TransferFiles_ok [OF assms(1)] have "inv_main cfg s"
    by (simp add: pipeline_ok_def)
  moreover from TransferFiles_past_start [OF assms] have "feeder_started (mainpc s)"
    by (cases "mainpc s") simp_all
  ultimately show ?thesis
    by (simp add: inv_main_def)
qed

lemma finished_no_fire:
  "finished s \<Longrightarrow> has_returned (mainpc s) \<Longrightarrow> fire c p cfg jobs a s = None"
  by (cases a; cases "mainpc s")
    (simp_all add: fire_def finished_no_worker_step main_step_def)

lemma idle_sentinel:
  assumes "idle s" and "\<not> panicked s"
    and "sentinel s = Some S_Wait \<or> sentinel s = Some S_Close"
  shows "fire c p cfg jobs Sentinel s \<noteq> None"
  using assms by (auto simp: idle_def fire_def worker_step_def sentinel_step_def)

text \<open>The state of a run whose \<open>make\<close> panics: nothing runs, and the call does not return.\<close>

lemma make_panics_never_returns:
  assumes "\<not> makes_succeed rt cfg jobs"
  shows "\<not> always_returns rt cfg c jobs p"
proof
  assume "always_returns rt cfg c jobs p"
  moreover have "TransferFiles rt cfg c jobs p [] = Some (TransferFiles_init rt cfg jobs)"
    by (simp add: TransferFiles_def)
  ultimately have "\<not> panicked (TransferFiles_init rt cfg jobs :: 'a state)"
    unfolding always_returns_def by blast
  with assms show False
    by (simp add: TransferFiles_init_def)
qed

subsection \<open>Runs over a long job list\<close>

lemma exec_iterate:
  assumes "\<And>k. k < n \<Longrightarrow> exec step block (S k) = Some (S (Suc k))"
  shows "m \<le> n \<Longrightarrow> exec step (concat (replicate m block)) (S 0) = Some (S m)"
proof (induction m)
  case 0
  show ?case by simp
next
  case (Suc m)
  have "replicate (Suc m) block = replicate m block @ [block]"
    by (simp add: replicate_append_same)
  then have "concat (replicate (Suc m) block) = concat (replicate m block) @ block"
    by (simp only: concat_append) simp
  with Suc assms [of m] show ?case
    by (simp add: exec_append del: replicate_Suc)
qed

text \<open>
  One fetch worker, one process worker, every \<open>Open\<close> fails: the feeder sends a job, the
  fetch worker receives it, fails to open it and counts the failure, \<open>n\<close> times over.
\<close>

lemma all_fail_run:
  assumes "Open c (RemotePath j) = Inl e"
    and "makes_succeed rt \<lparr>SFTPReaders = 1, Workers = 1, BufferSize = b\<rparr> (replicate n j)"
  shows "TransferFiles rt \<lparr>SFTPReaders = 1, Workers = 1, BufferSize = b\<rparr> c (replicate n j) p
     ([Main, Main, Main, Main, Main, Main, Main, Main]
      @ concat (replicate n [Feeder, Reader 0, Reader 0, Reader 0])
      @ [Feeder, Reader 0, Sentinel, Sentinel, Proc 0, Main])
   = Some \<lparr>mainpc = M_Returned 0 (word_of_nat n), feeder = Some F_Done, readers = [R_Done],
       sentinel = Some S_Done, procs = [P_Done], jobsChan = [], jobsClosed = True,
       resultsChan = [], resultsCloses = 1, readWg = 0, processWg = 0, transferred = 0,
       failed = word_of_nat n, opened = replicate n (RemotePath j), processed = [],
       panicked = False\<rparr>"
proof -
  let ?cfg = "\<lparr>SFTPReaders = 1, Workers = 1, BufferSize = b\<rparr>"
  let ?step = "fire c p ?cfg (replicate n j)"
  define S :: "nat \<Rightarrow> 'a state" where "S k =
    \<lparr>mainpc = M_Wait, feeder = Some (F_Loop (replicate (n - k) j)), readers = [R_Range],
     sentinel = Some S_Wait, procs = [P_Range], jobsChan = [], jobsClosed = False,
     resultsChan = [], resultsCloses = 0, readWg = 1, processWg = 1, transferred = 0,
     failed = word_of_nat k, opened = replicate k (RemotePath j), processed = [],
     panicked = False\<rparr>" for k
  have pre: "exec ?step [Main, Main, Main, Main, Main, Main, Main, Main]
      (TransferFiles_init rt ?cfg (replicate n j)) = Some (S 0)"
    using assms(2) by (simp add: S_def TransferFiles_init_def fire_def main_step_def maxInt32_def)
  have block: "exec ?step [Feeder, Reader 0, Reader 0, Reader 0] (S k) = Some (S (Suc k))"
    if "k < n" for k
  proof -
    from that have "n - k = Suc (n - Suc k)"
      by simp
    with that assms(1) show ?thesis
      by (simp add: S_def fire_def worker_step_def feeder_step_def reader_step_def)
  qed
  have loop: "exec ?step (concat (replicate n [Feeder, Reader 0, Reader 0, Reader 0])) (S 0)
      = Some (S n)"
    by (rule exec_iterate [where S = S and n = n, OF block]) simp_all
  have post: "exec ?step [Feeder, Reader 0, Sentinel, Sentinel, Proc 0, Main] (S n)
      = Some \<lparr>mainpc = M_Returned 0 (word_of_nat n), feeder = Some F_Done, readers = [R_Done],
       sentinel = Some S_Done, procs = [P_Done], jobsChan = [], jobsClosed = True,
       resultsChan = [], resultsCloses = 1, readWg = 0, processWg = 0, transferred = 0,
       failed = word_of_nat n, opened = replicate n (RemotePath j), processed = [],
       panicked = False\<rparr>"
    by (simp add: S_def fire_def worker_step_def feeder_step_def reader_step_def
        sentinel_step_def proc_step_def main_step_def readWg_Done_def processWg_Done_def)
  show ?thesis
    unfolding TransferFiles_def by (simp only: exec_append pre loop post option.case)
qed

text \<open>
  One fetch worker, one process worker, every fetch and every call of the processing
  function succeeds: the job goes from the feeder through the fetch worker, which hands
  its result to the process worker, \<open>n\<close> times over.
\<close>

lemma all_ok_run:
  assumes "Open c (RemotePath j) = Inr h" and "ReadAll c h = Inr d"
    and "p \<lparr>FileResult.ID = FileJob.ID j, Data = d\<rparr> = None"
    and "makes_succeed rt \<lparr>SFTPReaders = 1, Workers = 1, BufferSize = b\<rparr> (replicate n j)"
  shows "TransferFiles rt \<lparr>SFTPReaders = 1, Workers = 1, BufferSize = b\<rparr> c (replicate n j) p
     ([Main, Main, Main, Main, Main, Main, Main, Main]
      @ concat (replicate n
          [Feeder, Reader 0, Reader 0, Reader 0, Handoff 0 0, Proc 0, Proc 0])
      @ [Feeder, Reader 0, Sentinel, Sentinel, Proc 0, Main])
   = Some \<lparr>mainpc = M_Returned (word_of_nat n) 0, feeder = Some F_Done,
       readers = [R_Done], sentinel = Some S_Done, procs = [P_Done], jobsChan = [],
       jobsClosed = True, resultsChan = [], resultsCloses = 1, readWg = 0, processWg = 0,
       transferred = (word_of_nat n), failed = 0,
       opened = replicate n (RemotePath j),
       processed = replicate n \<lparr>FileResult.ID = FileJob.ID j, Data = d\<rparr>,
       panicked = False\<rparr>"
proof -
  let ?cfg = "\<lparr>SFTPReaders = 1, Workers = 1, BufferSize = b\<rparr>"
  let ?step = "fire c p ?cfg (replicate n j)"
  let ?block = "[Feeder, Reader 0, Reader 0, Reader 0, Handoff 0 0, Proc 0, Proc 0]"
  define S :: "nat \<Rightarrow> 'a state" where "S k =
    \<lparr>mainpc = M_Wait, feeder = Some (F_Loop (replicate (n - k) j)), readers = [R_Range],
     sentinel = Some S_Wait, procs = [P_Range], jobsChan = [], jobsClosed = False,
     resultsChan = [], resultsCloses = 0, readWg = 1, processWg = 1,
     transferred = (word_of_nat k), failed = 0,
     opened = replicate k (RemotePath j),
     processed = replicate k \<lparr>FileResult.ID = FileJob.ID j, Data = d\<rparr>,
     panicked = False\<rparr>" for k
  have pre: "exec ?step [Main, Main, Main, Main, Main, Main, Main, Main]
      (TransferFiles_init rt ?cfg (replicate n j)) = Some (S 0)"
    using assms(4) by (simp add: S_def TransferFiles_init_def fire_def main_step_def maxInt32_def)
  have block: "exec ?step ?block (S k) = Some (S (Suc k))" if "k < n" for k
  proof -
    from that have "n - k = Suc (n - Suc k)"
      by simp
    with that assms(1-3) show ?thesis
      by (simp add: S_def fire_def worker_step_def feeder_step_def reader_step_def
          handoff_step_def proc_step_def)
  qed
  have loop: "exec ?step (concat (replicate n ?block)) (S 0) = Some (S n)"
    by (rule exec_iterate [where S = S and n = n, OF block]) simp_all
  have post: "exec ?step [Feeder, Reader 0, Sentinel, Sentinel, Proc 0, Main] (S n)
      = Some \<lparr>mainpc = M_Returned (word_of_nat n) 0, feeder = Some F_Done,
       readers = [R_Done], sentinel = Some S_Done, procs = [P_Done], jobsChan = [],
       jobsClosed = True, resultsChan = [], resultsCloses = 1, readWg = 0, processWg = 0,
       transferred = (word_of_nat n), failed = 0,
       opened = replicate n (RemotePath j),
       processed = replicate n \<lparr>FileResult.ID = FileJob.ID j, Data = d\<rparr>,
       panicked = False\<rparr>"
    by (simp add: S_def fire_def worker_step_def feeder_step_def reader_step_def
        sentinel_step_def proc_step_def main_step_def readWg_Done_def processWg_Done_def)
  show ?thesis
    unfolding TransferFiles_def by (simp only: exec_append pre loop post option.case)
qed


section \<open>The claims\<close>

text \<open>
  C1 (amended). With positive pool sizes, the call returns the number of jobs that can be
  fetched and processed as \<open>transferred\<close> and the number of the other jobs as \<open>failed\<close>,
  both as \<open>int32\<close> values; every job counts once, in exactly one of the two numbers. So
  the two counts add up to \<open>len(jobs)\<close> as \<open>int32\<close> values, that is modulo \<open>2 ^ 32\<close>,
  and for fewer than \<open>2 ^ 31\<close> jobs neither count is negative and their sum is the number
  of jobs.
\<close>

theorem counts_add_up_to_jobs:
  assumes "0 < SFTPReaders cfg" and "0 < Workers cfg"
    and "TransferFiles rt cfg client jobs processFunc sched = Some s"
    and "mainpc s = M_Returned t f"
  shows "t = word_of_int (tally (jobW 0 1 client processFunc) jobs) \<and>
    f = word_of_int (tally (jobW 1 0 client processFunc) jobs) \<and>
    (\<forall>job. jobW 0 1 client processFunc job \<in> {0, 1} \<and>
       jobW 0 1 client processFunc job + jobW 1 0 client processFunc job = 1) \<and>
    t + f = word_of_nat (length jobs) \<and>
    (length jobs < 2 ^ 31 \<longrightarrow>
       0 \<le> sint t \<and> 0 \<le> sint f \<and> sint t + sint f = int (length jobs))"
proof -
  let ?T = "tally (jobW 0 1 client processFunc) jobs"
  let ?F = "tally (jobW 1 0 client processFunc) jobs"
  note r = TransferFiles_returns(1,2) [OF assms]
  note sum = tally_jobW_length [of client processFunc jobs]
  note nn = tally_jobW_nonneg [of client processFunc jobs]
  have 0: "jobW 0 1 client processFunc job \<in> {0, 1} \<and>
       jobW 0 1 client processFunc job + jobW 1 0 client processFunc job = 1" for job
    using jobW_cases [of client processFunc job] by auto
  have "t + f = word_of_int (?F + ?T)"
    by (simp add: r)
  then have 1: "t + f = word_of_nat (length jobs)"
    by (simp only: sum) simp
  have 2: "0 \<le> sint t \<and> 0 \<le> sint f \<and> sint t + sint f = int (length jobs)"
    if "length jobs < 2 ^ 31"
  proof -
    from that sum nn have "?T < 2147483648" and "?F < 2147483648"
      by simp_all
    with nn have "sint t = ?T" and "sint f = ?F"
      by (simp_all add: r sint_int32_small)
    with sum nn show ?thesis by simp
  qed
  from r 0 1 2 show ?thesis by blast
qed

theorem counts_add_up_to_jobs_witness:
  "case TransferFiles runtime64 \<lparr>SFTPReaders = 2, Workers = 1, BufferSize = 1\<rparr>
       (mockSFTPClient [''/remote/file_0.bin'' \<mapsto> [120],
          ''/remote/file_1.bin'' \<mapsto> [120, 120]])
       [\<lparr>RemotePath = ''/remote/file_0.bin'', ID = ''id_0''\<rparr>,
        \<lparr>RemotePath = ''/remote/file_1.bin'', ID = ''id_1''\<rparr>,
        \<lparr>RemotePath = ''/remote/file_2.bin'', ID = ''id_2''\<rparr>]
       (\<lambda>r. if Data r = [] then Some ''empty data'' else None)
       [Main, Main, Main, Main, Main, Main, Main, Main, Main, Main, Feeder, Feeder,
         Feeder, Feeder, Reader 0, Reader 0, Reader 0, Reader 0, Reader 0, Reader 0,
         Reader 0, Reader 1, Reader 1, Reader 1, Reader 1, Proc 0, Reader 0, Reader 0,
         Sentinel, Sentinel, Proc 0, Proc 0, Proc 0, Proc 0, Proc 0, Proc 0, Main] of
     None \<Rightarrow> False
   | Some s \<Rightarrow>
       (case mainpc s of M_Returned t f \<Rightarrow> sint t + sint f = 3 | _ \<Rightarrow> False)"
proof -
  let ?run = "TransferFiles runtime64 \<lparr>SFTPReaders = 2, Workers = 1, BufferSize = 1\<rparr>
       (mockSFTPClient [''/remote/file_0.bin'' \<mapsto> [120],
          ''/remote/file_1.bin'' \<mapsto> [120, 120]])
       [\<lparr>RemotePath = ''/remote/file_0.bin'', ID = ''id_0''\<rparr>,
        \<lparr>RemotePath = ''/remote/file_1.bin'', ID = ''id_1''\<rparr>,
        \<lparr>RemotePath = ''/remote/file_2.bin'', ID = ''id_2''\<rparr>]
       (\<lambda>r. if Data r = [] then Some ''empty data'' else None)
       [Main, Main, Main, Main, Main, Main, Main, Main, Main, Main, Feeder, Feeder,
         Feeder, Feeder, Reader 0, Reader 0, Reader 0, Reader 0, Reader 0, Reader 0,
         Reader 0, Reader 1, Reader 1, Reader 1, Reader 1, Proc 0, Reader 0, Reader 0,
         Sentinel, Sentinel, Proc 0, Proc 0, Proc 0, Proc 0, Proc 0, Proc 0, Main]"
  have "map_option (\<lambda>s. has_returned (mainpc s)) ?run = Some True"
    by code_simp
  then obtain s where run: "?run = Some s" and "has_returned (mainpc s)"
    by (cases ?run) simp_all
  then obtain t f where ret: "mainpc s = M_Returned t f"
    by (cases "mainpc s") simp_all
  have "0 < SFTPReaders \<lparr>SFTPReaders = 2, Workers = 1, BufferSize = 1\<rparr>"
    and "0 < Workers \<lparr>SFTPReaders = 2, Workers = 1, BufferSize = 1\<rparr>"
    by simp_all
  from counts_add_up_to_jobs [OF this run ret] have "sint t + sint f = 3"
    by (elim conjE) simp
  with ret show ?thesis
    unfolding run by simp
qed

theorem counts_add_up_to_jobs_counterexample:
  "case TransferFiles runtime64 \<lparr>SFTPReaders = 1, Workers = 1, BufferSize = 1\<rparr>
       (mockSFTPClient Map.empty)
       (replicate 2147483648 \<lparr>RemotePath = ''/remote/file_0.bin'', ID = ''id_0''\<rparr>)
       (\<lambda>r. None)
       ([Main, Main, Main, Main, Main, Main, Main, Main]
        @ concat (replicate 2147483648
            [Feeder, Reader 0, Reader 0, Reader 0])
        @ [Feeder, Reader 0, Sentinel, Sentinel, Proc 0, Main]) of
     None \<Rightarrow> False
   | Some s \<Rightarrow>
       (case mainpc s of
          M_Returned t f \<Rightarrow>
            sint t = 0 \<and> sint f = - 2147483648 \<and>
            sint t + sint f \<noteq> int (length (replicate 2147483648
                \<lparr>RemotePath = ''/remote/file_0.bin'', ID = ''id_0''\<rparr>))
        | _ \<Rightarrow> False)"
  using all_fail_run
    [where rt = runtime64 and b = 1 and n = 2147483648
      and j = "\<lparr>RemotePath = ''/remote/file_0.bin'', ID = ''id_0''\<rparr>"
      and c = "mockSFTPClient Map.empty :: bytes Client"
      and e = "''file not found: /remote/file_0.bin''" and p = "\<lambda>r. None"]
  by (simp add: mockSFTPClient_def makes_succeed_def makechan_panics_def runtime64_def
        sizeof_FileJob_def sizeof_FileResult_def)

text \<open>
  C2 (amended). \<open>TransferFiles\<close> does not check the pool sizes. With \<open>SFTPReaders\<close> or
  \<open>Workers\<close> zero or negative, on inputs within the limits of the runtime (both calls
  of \<open>make\<close> succeed and the other pool size is at most \<open>2 ^ 31 - 1\<close>), no run panics,
  the feeder has been started in every state after the first step of the call, and the
  call returns a pair of counts under every scheduler.
\<close>

theorem nonpositive_pools_not_rejected:
  assumes "SFTPReaders cfg \<le> 0 \<or> Workers cfg \<le> 0" and "within_limits rt cfg jobs"
  shows "always_returns rt cfg client jobs processFunc \<and>
    (\<forall>sched s. TransferFiles rt cfg client jobs processFunc sched = Some s \<longrightarrow>
       \<not> panicked s \<and> (sched \<noteq> [] \<longrightarrow> feeder s \<noteq> None)) \<and>
    (\<exists>sched s t f. TransferFiles rt cfg client jobs processFunc sched = Some s \<and>
       mainpc s = M_Returned t f)"
proof -
  obtain sched s t f where run: "TransferFiles rt cfg client jobs processFunc sched = Some s"
    and r: "mainpc s = M_Returned t f"
    by (rule TransferFiles_can_return [OF assms(2)])
  with TransferFiles_feeder_started TransferFiles_no_panic [OF assms(2)]
    TransferFiles_always_returns [OF assms(2)]
  show ?thesis
    by blast
qed

theorem nonpositive_pools_not_rejected_witness:
  "always_returns runtime64 \<lparr>SFTPReaders = 1, Workers = 0, BufferSize = 1\<rparr>
     (mockSFTPClient [''/remote/file_0.bin'' \<mapsto> [120],
          ''/remote/file_1.bin'' \<mapsto> [120, 120]])
     [\<lparr>RemotePath = ''/remote/file_0.bin'', ID = ''id_0''\<rparr>]
     (\<lambda>r. if Data r = [] then Some ''empty data'' else None) \<and>
   map_option (\<lambda>s. (has_returned (mainpc s), panicked s, feeder s \<noteq> None, resultsChan s))
     (TransferFiles runtime64 \<lparr>SFTPReaders = 1, Workers = 0, BufferSize = 1\<rparr>
       (mockSFTPClient [''/remote/file_0.bin'' \<mapsto> [120],
          ''/remote/file_1.bin'' \<mapsto> [120, 120]])
       [\<lparr>RemotePath = ''/remote/file_0.bin'', ID = ''id_0''\<rparr>]
       (\<lambda>r. if Data r = [] then Some ''empty data'' else None)
       [Main, Main, Main, Main, Main, Main, Main, Feeder, Reader 0, Reader 0,
         Reader 0, Reader 0]) =
   Some (True, False, True, [\<lparr>FileResult.ID = ''id_0'', Data = [120]\<rparr>])"
proof -
  have "map_option (\<lambda>s. (has_returned (mainpc s), panicked s, feeder s \<noteq> None, resultsChan s))
     (TransferFiles runtime64 \<lparr>SFTPReaders = 1, Workers = 0, BufferSize = 1\<rparr>
       (mockSFTPClient [''/remote/file_0.bin'' \<mapsto> [120],
          ''/remote/file_1.bin'' \<mapsto> [120, 120]])
       [\<lparr>RemotePath = ''/remote/file_0.bin'', ID = ''id_0''\<rparr>]
       (\<lambda>r. if Data r = [] then Some ''empty data'' else None)
       [Main, Main, Main, Main, Main, Main, Main, Feeder, Reader 0, Reader 0,
         Reader 0, Reader 0]) =
   Some (True, False, True, [\<lparr>FileResult.ID = ''id_0'', Data = [120]\<rparr>])"
    by code_simp
  with nonpositive_pools_not_rejected
    [where rt = runtime64 and cfg = "\<lparr>SFTPReaders = 1, Workers = 0, BufferSize = 1\<rparr>"
      and client = "(mockSFTPClient [''/remote/file_0.bin'' \<mapsto> [120],
          ''/remote/file_1.bin'' \<mapsto> [120, 120]])"
      and jobs = "[\<lparr>RemotePath = ''/remote/file_0.bin'', ID = ''id_0''\<rparr>]"
      and processFunc = "(\<lambda>r. if Data r = [] then Some ''empty data'' else None)"]
  show ?thesis
    by (simp add: within_limits_def makes_succeed_def makechan_panics_def runtime64_def
        sizeof_FileJob_def sizeof_FileResult_def maxInt32_def)
qed

theorem nonpositive_pools_counterexample:
  "map_option (\<lambda>s. (mainpc s, panicked s, feeder s, jobsChan s))
     (TransferFiles runtime64 \<lparr>SFTPReaders = 0, Workers = 1, BufferSize = 1\<rparr>
       (mockSFTPClient [''/remote/file_0.bin'' \<mapsto> [120],
          ''/remote/file_1.bin'' \<mapsto> [120, 120]])
       [\<lparr>RemotePath = ''/remote/file_0.bin'', ID = ''id_0''\<rparr>]
       (\<lambda>r. if Data r = [] then Some ''empty data'' else None)
       [Main, Main, Main, Main, Main, Main, Feeder, Feeder, Sentinel, Sentinel,
         Proc 0, Main]) =
   Some (M_Returned 0 0, False, Some F_Done,
     [\<lparr>RemotePath = ''/remote/file_0.bin'', ID = ''id_0''\<rparr>])"
  by code_simp

text \<open>
  C3 (amended). If \<open>Open\<close> fails for every locator, then with positive pool sizes the
  processing function is never called, \<open>transferred\<close> stays zero, and a call that
  returns returns \<open>transferred = 0\<close> and \<open>failed = len(jobs)\<close> as an \<open>int32\<close> value,
  which is the number of jobs when there are fewer than \<open>2 ^ 31\<close>. The call does return,
  under every scheduler and without a panic, on inputs within the limits of the runtime:
  both calls of \<open>make\<close> succeed and the pool sizes are at most \<open>2 ^ 31 - 1\<close>.
\<close>

theorem all_opens_fail:
  assumes "0 < SFTPReaders cfg" and "0 < Workers cfg"
    and "\<forall>path. \<exists>err. Open client path = Inl err"
    and "TransferFiles rt cfg client jobs processFunc sched = Some s"
  shows "processed s = [] \<and> transferred s = 0 \<and>
    (\<forall>t f. mainpc s = M_Returned t f \<longrightarrow>
       t = 0 \<and> f = word_of_nat (length jobs) \<and>
       (length jobs < 2 ^ 31 \<longrightarrow> sint f = int (length jobs))) \<and>
    (within_limits rt cfg jobs \<longrightarrow> always_returns rt cfg client jobs processFunc)"
proof -
  have "jobW 1 0 client processFunc j = 1" for j
    using assms(3) [rule_format, of "RemotePath j"] by (auto simp: jobW_def)
  then have tot: "tally (jobW 1 0 client processFunc) jobs = int (length jobs)"
    "tally (jobW 0 1 client processFunc) jobs = 0"
    using all_fail [of jobs client processFunc] by simp_all
  have "tally (jobR client) jobs = {#}"
    using assms(3) by (simp add: all_open_fail_no_results)
  with TransferFiles_handed [OF assms(4)] have 1: "processed s = []"
    by simp
  have 2: "transferred s = 0"
    by (rule TransferFiles_transferred_zero [OF assms(4) tot(2)])
  have 3: "t = 0 \<and> f = word_of_nat (length jobs) \<and>
       (length jobs < 2 ^ 31 \<longrightarrow> sint f = int (length jobs))"
    if "mainpc s = M_Returned t f" for t f
    using TransferFiles_returns(1,2) [OF assms(1,2,4) that]
      returned_exact(2) [OF assms(1,2,4) that]
    by (simp add: tot)
  from 1 2 3 TransferFiles_always_returns show ?thesis
    by blast
qed

theorem all_opens_fail_witness:
  "case TransferFiles runtime64 \<lparr>SFTPReaders = 1, Workers = 1, BufferSize = 0\<rparr>
       (mockSFTPClient Map.empty)
       [\<lparr>RemotePath = ''/remote/file_0.bin'', ID = ''id_0''\<rparr>,
        \<lparr>RemotePath = ''/remote/file_1.bin'', ID = ''id_1''\<rparr>]
       (\<lambda>r. None)
       [Main, Main, Main, Main, Main, Main, Main, Main, Feeder, Reader 0, Reader 0,
         Reader 0, Feeder, Reader 0, Reader 0, Reader 0, Feeder, Reader 0, Sentinel,
         Sentinel, Proc 0, Main] of
     None \<Rightarrow> False
   | Some s \<Rightarrow> mainpc s = M_Returned 0 2 \<and> processed s = [] \<and> transferred s = 0 \<and>
       always_returns runtime64 \<lparr>SFTPReaders = 1, Workers = 1, BufferSize = 0\<rparr>
         (mockSFTPClient Map.empty)
         [\<lparr>RemotePath = ''/remote/file_0.bin'', ID = ''id_0''\<rparr>,
        \<lparr>RemotePath = ''/remote/file_1.bin'', ID = ''id_1''\<rparr>]
         (\<lambda>r. None)"
proof -
  let ?run = "TransferFiles runtime64 \<lparr>SFTPReaders = 1, Workers = 1, BufferSize = 0\<rparr>
       (mockSFTPClient Map.empty)
       [\<lparr>RemotePath = ''/remote/file_0.bin'', ID = ''id_0''\<rparr>,
        \<lparr>RemotePath = ''/remote/file_1.bin'', ID = ''id_1''\<rparr>]
       (\<lambda>r. None)
       [Main, Main, Main, Main, Main, Main, Main, Main, Feeder, Reader 0, Reader 0,
         Reader 0, Feeder, Reader 0, Reader 0, Reader 0, Feeder, Reader 0, Sentinel,
         Sentinel, Proc 0, Main]"
  have "map_option mainpc ?run = Some (M_Returned 0 2)"
    by code_simp
  then obtain s where run: "?run = Some s" and ret: "mainpc s = M_Returned 0 2"
    by (cases ?run) simp_all
  have fails: "\<forall>path. \<exists>err. Open (mockSFTPClient Map.empty :: bytes Client) path = Inl err"
    by (simp add: mockSFTPClient_def)
  from all_opens_fail [OF _ _ fails run] ret
  have "processed s = [] \<and> transferred s = 0 \<and>
       always_returns runtime64 \<lparr>SFTPReaders = 1, Workers = 1, BufferSize = 0\<rparr>
         (mockSFTPClient Map.empty)
         [\<lparr>RemotePath = ''/remote/file_0.bin'', ID = ''id_0''\<rparr>,
        \<lparr>RemotePath = ''/remote/file_1.bin'', ID = ''id_1''\<rparr>]
         (\<lambda>r. None)"
    by (simp add: within_limits_def makes_succeed_def makechan_panics_def runtime64_def
        sizeof_FileJob_def sizeof_FileResult_def maxInt32_def)
  with ret show ?thesis
    unfolding run by simp
qed

theorem all_opens_fail_counterexample:
  "case TransferFiles runtime64 \<lparr>SFTPReaders = 1, Workers = 1, BufferSize = 1\<rparr>
       (mockSFTPClient Map.empty)
       (replicate 2147483648 \<lparr>RemotePath = ''/remote/file_0.bin'', ID = ''id_0''\<rparr>)
       (\<lambda>r. Some ''rejected'')
       ([Main, Main, Main, Main, Main, Main, Main, Main]
        @ concat (replicate 2147483648
            [Feeder, Reader 0, Reader 0, Reader 0])
        @ [Feeder, Reader 0, Sentinel, Sentinel, Proc 0, Main]) of
     None \<Rightarrow> False
   | Some s \<Rightarrow>
       (case mainpc s of
          M_Returned t f \<Rightarrow>
            t = 0 \<and> sint f = - 2147483648 \<and>
            sint f \<noteq> int (length (replicate 2147483648
                \<lparr>RemotePath = ''/remote/file_0.bin'', ID = ''id_0''\<rparr>))
        | _ \<Rightarrow> False)"
  using all_fail_run
    [where rt = runtime64 and b = 1 and n = 2147483648
      and j = "\<lparr>RemotePath = ''/remote/file_0.bin'', ID = ''id_0''\<rparr>"
      and c = "mockSFTPClient Map.empty :: bytes Client"
      and e = "''file not found: /remote/file_0.bin''" and p = "\<lambda>r. Some ''rejected''"]
  by (simp add: mockSFTPClient_def makes_succeed_def makechan_panics_def runtime64_def
        sizeof_FileJob_def sizeof_FileResult_def)

text \<open>
  C4 (amended). If the capability yields the bytes of every job's locator and the
  processing function accepts every result, then with positive pool sizes \<open>failed\<close>
  stays zero, and a call that returns returns \<open>failed = 0\<close> and
  \<open>transferred = len(jobs)\<close> as an \<open>int32\<close> value, which is the number of jobs when
  there are fewer than \<open>2 ^ 31\<close>. The call does return, under every scheduler and
  without a panic, on inputs within the limits of the runtime: both calls of \<open>make\<close>
  succeed and the pool sizes are at most \<open>2 ^ 31 - 1\<close>.
\<close>

theorem all_fetched_all_processed:
  assumes "0 < SFTPReaders cfg" and "0 < Workers cfg"
    and "\<forall>job \<in> set jobs. \<exists>f data.
           Open client (RemotePath job) = Inr f \<and> ReadAll client f = Inr data"
    and "\<forall>result. processFunc result = None"
    and "TransferFiles rt cfg client jobs processFunc sched = Some s"
  shows "failed s = 0 \<and>
    (\<forall>t f. mainpc s = M_Returned t f \<longrightarrow>
       f = 0 \<and> t = word_of_nat (length jobs) \<and>
       (length jobs < 2 ^ 31 \<longrightarrow> sint t = int (length jobs))) \<and>
    (within_limits rt cfg jobs \<longrightarrow> always_returns rt cfg client jobs processFunc)"
proof -
  have "jobW 0 1 client processFunc j = 1" if "j \<in> set jobs" for j
    using assms(3) [rule_format, OF that] assms(4)
    by (auto simp: jobW_def readW_def resW_def)
  then have tot: "tally (jobW 0 1 client processFunc) jobs = int (length jobs)"
    "tally (jobW 1 0 client processFunc) jobs = 0"
    using all_succeed [of jobs client processFunc] by simp_all
  have 1: "failed s = 0"
    by (rule TransferFiles_failed_zero [OF assms(5) tot(2)])
  have 2: "f = 0 \<and> t = word_of_nat (length jobs) \<and>
       (length jobs < 2 ^ 31 \<longrightarrow> sint t = int (length jobs))"
    if "mainpc s = M_Returned t f" for t f
    using TransferFiles_returns(1,2) [OF assms(1,2,5) that]
      returned_exact(1) [OF assms(1,2,5) that]
    by (simp add: tot)
  from 1 2 TransferFiles_always_returns show ?thesis
    by blast
qed

theorem all_fetched_all_processed_witness:
  "case TransferFiles runtime64 \<lparr>SFTPReaders = 2, Workers = 2, BufferSize = 1\<rparr>
       (mockSFTPClient [''/remote/file_0.bin'' \<mapsto> [120],
          ''/remote/file_1.bin'' \<mapsto> [120, 120]])
       [\<lparr>RemotePath = ''/remote/file_0.bin'', ID = ''id_0''\<rparr>,
        \<lparr>RemotePath = ''/remote/file_1.bin'', ID = ''id_1''\<rparr>]
       (\<lambda>r. None)
       [Main, Main, Main, Main, Main, Main, Main, Main, Main, Main, Main, Main,
         Feeder, Reader 1, Reader 1, Reader 1, Handoff 1 0, Proc 0, Proc 0, Feeder,
         Reader 1, Reader 1, Reader 1, Handoff 1 0, Proc 0, Proc 0, Feeder, Reader 1,
         Reader 0, Sentinel, Sentinel, Proc 1, Proc 0, Main] of
     None \<Rightarrow> False
   | Some s \<Rightarrow> mainpc s = M_Returned 2 0 \<and> failed s = 0 \<and>
       always_returns runtime64 \<lparr>SFTPReaders = 2, Workers = 2, BufferSize = 1\<rparr>
         (mockSFTPClient [''/remote/file_0.bin'' \<mapsto> [120],
          ''/remote/file_1.bin'' \<mapsto> [120, 120]])
         [\<lparr>RemotePath = ''/remote/file_0.bin'', ID = ''id_0''\<rparr>,
        \<lparr>RemotePath = ''/remote/file_1.bin'', ID = ''id_1''\<rparr>]
         (\<lambda>r. None)"
proof -
  let ?run = "TransferFiles runtime64 \<lparr>SFTPReaders = 2, Workers = 2, BufferSize = 1\<rparr>
       (mockSFTPClient [''/remote/file_0.bin'' \<mapsto> [120],
          ''/remote/file_1.bin'' \<mapsto> [120, 120]])
       [\<lparr>RemotePath = ''/remote/file_0.bin'', ID = ''id_0''\<rparr>,
        \<lparr>RemotePath = ''/remote/file_1.bin'', ID = ''id_1''\<rparr>]
       (\<lambda>r. None)
       [Main, Main, Main, Main, Main, Main, Main, Main, Main, Main, Main, Main,
         Feeder, Reader 1, Reader 1, Reader 1, Handoff 1 0, Proc 0, Proc 0, Feeder,
         Reader 1, Reader 1, Reader 1, Handoff 1 0, Proc 0, Proc 0, Feeder, Reader 1,
         Reader 0, Sentinel, Sentinel, Proc 1, Proc 0, Main]"
  have "map_option mainpc ?run = Some (M_Returned 2 0)"
    by code_simp
  then obtain s where run: "?run = Some s" and ret: "mainpc s = M_Returned 2 0"
    by (cases ?run) simp_all
  have fetch: "\<forall>job \<in> set [\<lparr>RemotePath = ''/remote/file_0.bin'', ID = ''id_0''\<rparr>,
        \<lparr>RemotePath = ''/remote/file_1.bin'', ID = ''id_1''\<rparr>]. \<exists>f data.
      Open (mockSFTPClient [''/remote/file_0.bin'' \<mapsto> [120],
          ''/remote/file_1.bin'' \<mapsto> [120, 120]]) (RemotePath job) = Inr f \<and>
      ReadAll (mockSFTPClient [''/remote/file_0.bin'' \<mapsto> [120],
          ''/remote/file_1.bin'' \<mapsto> [120, 120]]) f = Inr data"
    by (simp add: mockSFTPClient_def)
  have ok: "\<forall>result. (\<lambda>r. None) result = None"
    by simp
  from all_fetched_all_processed [OF _ _ fetch ok run] ret
  have "failed s = 0 \<and>
       always_returns runtime64 \<lparr>SFTPReaders = 2, Workers = 2, BufferSize = 1\<rparr>
         (mockSFTPClient [''/remote/file_0.bin'' \<mapsto> [120],
          ''/remote/file_1.bin'' \<mapsto> [120, 120]])
         [\<lparr>RemotePath = ''/remote/file_0.bin'', ID = ''id_0''\<rparr>,
        \<lparr>RemotePath = ''/remote/file_1.bin'', ID = ''id_1''\<rparr>]
         (\<lambda>r. None)"
    by (simp add: within_limits_def makes_succeed_def makechan_panics_def runtime64_def
        sizeof_FileJob_def sizeof_FileResult_def maxInt32_def)
  with ret show ?thesis
    unfolding run by simp
qed

theorem all_fetched_all_processed_counterexample:
  "case TransferFiles runtime64 \<lparr>SFTPReaders = 1, Workers = 1, BufferSize = 1\<rparr>
       (mockSFTPClient [''/remote/file_0.bin'' \<mapsto> [120]])
       (replicate 2147483648 \<lparr>RemotePath = ''/remote/file_0.bin'', ID = ''id_0''\<rparr>)
       (\<lambda>r. None)
       ([Main, Main, Main, Main, Main, Main, Main, Main]
        @ concat (replicate 2147483648
            [Feeder, Reader 0, Reader 0, Reader 0, Handoff 0 0, Proc 0, Proc 0])
        @ [Feeder, Reader 0, Sentinel, Sentinel, Proc 0, Main]) of
     None \<Rightarrow> False
   | Some s \<Rightarrow>
       (case mainpc s of
          M_Returned t f \<Rightarrow>
            f = 0 \<and> sint t = - 2147483648 \<and>
            sint t \<noteq> int (length (replicate 2147483648
                \<lparr>RemotePath = ''/remote/file_0.bin'', ID = ''id_0''\<rparr>))
        | _ \<Rightarrow> False)"
  using all_ok_run
    [where rt = runtime64 and b = 1 and n = 2147483648
      and j = "\<lparr>RemotePath = ''/remote/file_0.bin'', ID = ''id_0''\<rparr>"
      and c = "mockSFTPClient [''/remote/file_0.bin'' \<mapsto> [120]]"
      and h = "[120]" and d = "[120]" and p = "\<lambda>r. None"]
  by (simp add: mockSFTPClient_def makes_succeed_def makechan_panics_def runtime64_def
        sizeof_FileJob_def sizeof_FileResult_def)






text \<open>
  C7. \<open>TransferFiles\<close> and \<open>TransferFilesMock\<close> can return the same pairs of counts, for
  every configuration, capability, job list and processing function: every pair that
  some run of one returns, some run of the other returns.
\<close>

theorem TransferFilesMock_equivalent:
  "TransferFiles_results rt cfg client jobs processFunc
   = TransferFilesMock_results rt cfg client jobs processFunc"
proof (intro set_eqI iffI; clarify)
  fix t f
  assume "(t, f) \<in> TransferFiles_results rt cfg client jobs processFunc"
  then obtain sched s where run: "TransferFiles rt cfg client jobs processFunc sched = Some s"
    and ret: "mainpc s = M_Returned t f"
    by (auto simp: TransferFiles_results_def)
  from exec_unstarted [OF ok_init run [unfolded TransferFiles_def]]
  obtain sched' where "TransferFilesMock rt cfg client jobs processFunc sched' = Some s"
    by (auto simp: TransferFilesMock_def unstarted_init unstarted_returned [OF ret])
  with ret show "(t, f) \<in> TransferFilesMock_results rt cfg client jobs processFunc"
    by (auto simp: TransferFilesMock_results_def)
next
  fix t f
  assume "(t, f) \<in> TransferFilesMock_results rt cfg client jobs processFunc"
  then obtain sched s where run: "TransferFilesMock rt cfg client jobs processFunc sched = Some s"
    and ret: "mainpc s = M_Returned t f"
    by (auto simp: TransferFilesMock_results_def)
  from mock_exec_exec [OF run [unfolded TransferFilesMock_def]]
  obtain sched' where "TransferFiles rt cfg client jobs processFunc sched' = Some s"
    by (auto simp: TransferFiles_def)
  with ret show "(t, f) \<in> TransferFiles_results rt cfg client jobs processFunc"
    by (auto simp: TransferFiles_results_def)
qed


theorem TransferFilesMock_equivalent_witness:
  "(1, 1) \<in> TransferFilesMock_results runtime64 \<lparr>SFTPReaders = 1, Workers = 1, BufferSize = 1\<rparr>
     (mockSFTPClient [''/remote/file_0.bin'' \<mapsto> [120],
          ''/remote/file_1.bin'' \<mapsto> [120, 120]])
     [\<lparr>RemotePath = ''/remote/file_0.bin'', ID = ''id_0''\<rparr>,
        \<lparr>RemotePath = ''/remote/file_2.bin'', ID = ''id_2''\<rparr>]
     (\<lambda>r. if Data r = [] then Some ''empty data'' else None)"
proof -
  let ?run = "TransferFiles runtime64 \<lparr>SFTPReaders = 1, Workers = 1, BufferSize = 1\<rparr>
       (mockSFTPClient [''/remote/file_0.bin'' \<mapsto> [120],
          ''/remote/file_1.bin'' \<mapsto> [120, 120]])
       [\<lparr>RemotePath = ''/remote/file_0.bin'', ID = ''id_0''\<rparr>,
        \<lparr>RemotePath = ''/remote/file_2.bin'', ID = ''id_2''\<rparr>]
       (\<lambda>r. if Data r = [] then Some ''empty data'' else None)
       [Main, Main, Main, Main, Main, Main, Main, Main, Feeder, Feeder, Feeder,
         Reader 0, Reader 0, Reader 0, Reader 0, Reader 0, Reader 0, Reader 0,
         Reader 0, Sentinel, Sentinel, Proc 0, Proc 0, Proc 0, Proc 0, Main]"
  have "map_option mainpc ?run = Some (M_Returned 1 1)"
    by code_simp
  then obtain s where "?run = Some s" and "mainpc s = M_Returned 1 1"
    by (cases ?run) simp_all
  then have "(1, 1) \<in> TransferFiles_results runtime64 \<lparr>SFTPReaders = 1, Workers = 1, BufferSize = 1\<rparr>
     (mockSFTPClient [''/remote/file_0.bin'' \<mapsto> [120],
          ''/remote/file_1.bin'' \<mapsto> [120, 120]])
     [\<lparr>RemotePath = ''/remote/file_0.bin'', ID = ''id_0''\<rparr>,
        \<lparr>RemotePath = ''/remote/file_2.bin'', ID = ''id_2''\<rparr>]
     (\<lambda>r. if Data r = [] then Some ''empty data'' else None)"
    unfolding TransferFiles_results_def by blast
  then show ?thesis
    by (simp only: TransferFilesMock_equivalent)
qed

text \<open>
  C8. Every result that the processing function has been called with, and every result
  waiting in \<open>resultsChan\<close>, carries the \<open>ID\<close> of one of the jobs and, as its \<open>Data\<close>,
  the bytes that \<open>Open\<close> and \<open>io.ReadAll\<close> yield for the locator of that job. With positive
  pool sizes, when the call has returned the processing function has been called exactly
  once with the result of each job that can be fetched, and with nothing else.
\<close>

theorem results_are_the_fetched_jobs:
  assumes "TransferFiles rt cfg client jobs processFunc sched = Some s"
  shows "(\<forall>r \<in> set (processed s) \<union> set (resultsChan s). \<exists>job \<in> set jobs. \<exists>f.
            Open client (RemotePath job) = Inr f \<and> ReadAll client f = Inr (Data r)
            \<and> FileResult.ID r = FileJob.ID job) \<and>
    (0 < SFTPReaders cfg \<and> 0 < Workers cfg \<and> has_returned (mainpc s) \<longrightarrow>
       mset (processed s) = tally (jobR client) jobs)"
proof -
  note H = TransferFiles_handed [OF assms]
  have 1: "\<exists>job \<in> set jobs. \<exists>f.
            Open client (RemotePath job) = Inr f \<and> ReadAll client f = Inr (Data r)
            \<and> FileResult.ID r = FileJob.ID job"
    if "r \<in> set (processed s) \<union> set (resultsChan s)" for r
  proof -
    from that have "r \<in># mset (processed s) + pendR client jobs s"
      by (auto simp: pendR_def)
    with H have "r \<in># tally (jobR client) jobs"
      by simp
    then obtain job where "job \<in> set jobs" and "r \<in># jobR client job"
      using in_tally_jobR by blast
    with in_jobR [of r client job] show ?thesis
      by blast
  qed
  have 2: "mset (processed s) = tally (jobR client) jobs"
    if "0 < SFTPReaders cfg \<and> 0 < Workers cfg \<and> has_returned (mainpc s)"
  proof -
    from that obtain t f where "mainpc s = M_Returned t f"
      by (cases "mainpc s") simp_all
    from that TransferFiles_returns(3) [OF _ _ assms this] have "finished s"
      by simp
    with H show ?thesis
      by (simp add: finished_pendR)
  qed
  from 1 2 show ?thesis by blast
qed

theorem results_are_the_fetched_jobs_witness:
  "case TransferFiles runtime64 \<lparr>SFTPReaders = 1, Workers = 1, BufferSize = 0\<rparr>
       (mockSFTPClient [''/remote/file_0.bin'' \<mapsto> [120],
          ''/remote/file_1.bin'' \<mapsto> [120, 120]])
       [\<lparr>RemotePath = ''/remote/file_1.bin'', ID = ''id_1''\<rparr>,
        \<lparr>RemotePath = ''/remote/file_0.bin'', ID = ''id_0''\<rparr>]
       (\<lambda>r. if Data r = [] then Some ''empty data'' else None)
       [Main, Main, Main, Main, Main, Main, Main, Main, Feeder, Reader 0, Reader 0,
         Reader 0, Handoff 0 0, Proc 0, Proc 0, Feeder, Reader 0, Reader 0, Reader 0,
         Handoff 0 0, Proc 0, Proc 0, Feeder, Reader 0, Sentinel, Sentinel, Proc 0,
         Main] of
     None \<Rightarrow> False
   | Some s \<Rightarrow> mainpc s = M_Returned 2 0 \<and> mset (processed s) =
         {#\<lparr>FileResult.ID = ''id_0'', Data = [120]\<rparr>,
           \<lparr>FileResult.ID = ''id_1'', Data = [120, 120]\<rparr>#}"
proof -
  let ?run = "TransferFiles runtime64 \<lparr>SFTPReaders = 1, Workers = 1, BufferSize = 0\<rparr>
       (mockSFTPClient [''/remote/file_0.bin'' \<mapsto> [120],
          ''/remote/file_1.bin'' \<mapsto> [120, 120]])
       [\<lparr>RemotePath = ''/remote/file_1.bin'', ID = ''id_1''\<rparr>,
        \<lparr>RemotePath = ''/remote/file_0.bin'', ID = ''id_0''\<rparr>]
       (\<lambda>r. if Data r = [] then Some ''empty data'' else None)
       [Main, Main, Main, Main, Main, Main, Main, Main, Feeder, Reader 0, Reader 0,
         Reader 0, Handoff 0 0, Proc 0, Proc 0, Feeder, Reader 0, Reader 0, Reader 0,
         Handoff 0 0, Proc 0, Proc 0, Feeder, Reader 0, Sentinel, Sentinel, Proc 0,
         Main]"
  have "map_option mainpc ?run = Some (M_Returned 2 0)"
    by code_simp
  then obtain s where run: "?run = Some s" and ret: "mainpc s = M_Returned 2 0"
    by (cases ?run) simp_all
  from results_are_the_fetched_jobs [OF run] ret
  have "mset (processed s) =
         {#\<lparr>FileResult.ID = ''id_0'', Data = [120]\<rparr>,
           \<lparr>FileResult.ID = ''id_1'', Data = [120, 120]\<rparr>#}"
    by (simp add: jobR_def readR_def mockSFTPClient_def)
  with ret show ?thesis
    unfolding run by simp
qed

text \<open>
  C9 (amended). In every state of every run with positive pool sizes \<open>resultsChan\<close> has
  been closed at most once, and if it has been closed then all \<open>SFTPReaders\<close> fetch
  workers were started and are gone. In every state in which the call has returned,
  nothing has panicked, \<open>resultsChan\<close> has been closed exactly once, every goroutine the
  call started is gone and none can take a step, so none is blocked on a channel. On
  inputs within the limits of the runtime (both calls of \<open>make\<close> succeed, which a
  negative \<open>BufferSize\<close> excludes, and the pool sizes are at most \<open>2 ^ 31 - 1\<close>) the
  call returns under every scheduler and no goroutine panics, so that \<open>resultsChan\<close>
  is closed exactly once in every run that is continued to its end.
\<close>

theorem results_closed_once_no_leak:
  assumes "0 < SFTPReaders cfg" and "0 < Workers cfg"
    and "TransferFiles rt cfg client jobs processFunc sched = Some s"
  shows "resultsCloses s \<le> 1 \<and>
    (0 < resultsCloses s \<longrightarrow>
       int (length (readers s)) = SFTPReaders cfg \<and> (\<forall>r \<in> set (readers s). r = R_Done)) \<and>
    (has_returned (mainpc s) \<longrightarrow>
       \<not> panicked s \<and> resultsCloses s = 1 \<and> finished s \<and>
       (\<forall>a. fire client processFunc cfg jobs a s = None)) \<and>
    (within_limits rt cfg jobs \<longrightarrow> always_returns rt cfg client jobs processFunc)"
proof -
  from TransferFiles_ok [OF assms(3)]
  have "inv_results s" and "inv_main cfg s" and "inv_wg s"
    by (simp_all add: pipeline_ok_def)
  have 1: "resultsCloses s \<le> 1"
    using \<open>inv_results s\<close> by - (rule sentinel_cases [of s], simp_all add: inv_results_def)
  have 2: "int (length (readers s)) = SFTPReaders cfg \<and> (\<forall>r \<in> set (readers s). r = R_Done)"
    if "0 < resultsCloses s"
  proof -
    from that \<open>inv_results s\<close> have d: "sentinel s = Some S_Done \<and> readWg s = 0"
      by - (rule sentinel_cases [of s], simp_all add: inv_results_def)
    then have "readWg s = 0" and "sentinel s \<noteq> None"
      by simp_all
    with \<open>inv_main cfg s\<close> have "sentinel_started (mainpc s)"
      by (simp add: inv_main_def)
    then have "rd_spawned cfg (mainpc s) = max 0 (SFTPReaders cfg)" and "rd_added (mainpc s) = 0"
      by (cases "mainpc s"; simp)+
    with \<open>inv_main cfg s\<close> \<open>inv_wg s\<close> \<open>readWg s = 0\<close> assms(1)
    have "tally reader_live (readers s) = 0" and "int (length (readers s)) = SFTPReaders cfg"
      by (simp_all add: inv_main_def inv_wg_def)
    with readers_all_done [of "readers s"] show ?thesis
      by blast
  qed
  have 3: "\<not> panicked s \<and> resultsCloses s = 1 \<and> finished s \<and>
       (\<forall>a. fire client processFunc cfg jobs a s = None)"
    if "has_returned (mainpc s)"
  proof -
    from that obtain t f where r: "mainpc s = M_Returned t f"
      by (cases "mainpc s") simp_all
    note I = TransferFiles_returned_inv [OF assms(3) that]
    note fin = returned_finished [OF I r assms(1,2)]
    from I have "\<not> panicked s"
      by (simp add: pipeline_inv_def)
    with returned_results_closed(2) [OF I r assms(2)] fin finished_no_fire [OF fin that]
    show ?thesis by blast
  qed
  from 1 2 3 TransferFiles_always_returns show ?thesis by blast
qed

theorem results_closed_once_no_leak_witness:
  "case TransferFiles runtime64 \<lparr>SFTPReaders = 1, Workers = 1, BufferSize = 1\<rparr>
       (mockSFTPClient [''/remote/file_0.bin'' \<mapsto> [120]])
       [\<lparr>RemotePath = ''/remote/file_0.bin'', ID = ''id_0''\<rparr>]
       (\<lambda>r. None)
       [Main, Main, Main, Main, Main, Main, Main, Main, Feeder, Feeder, Reader 0,
         Reader 0, Reader 0, Reader 0, Proc 0, Proc 0, Proc 0, Reader 0, Sentinel,
         Sentinel, Proc 0, Main] of
     None \<Rightarrow> False
   | Some s \<Rightarrow> mainpc s = M_Returned 1 0 \<and> \<not> panicked s \<and> resultsCloses s = 1 \<and> finished s \<and>
       always_returns runtime64 \<lparr>SFTPReaders = 1, Workers = 1, BufferSize = 1\<rparr>
         (mockSFTPClient [''/remote/file_0.bin'' \<mapsto> [120]])
         [\<lparr>RemotePath = ''/remote/file_0.bin'', ID = ''id_0''\<rparr>]
         (\<lambda>r. None)"
proof -
  let ?run = "TransferFiles runtime64 \<lparr>SFTPReaders = 1, Workers = 1, BufferSize = 1\<rparr>
       (mockSFTPClient [''/remote/file_0.bin'' \<mapsto> [120]])
       [\<lparr>RemotePath = ''/remote/file_0.bin'', ID = ''id_0''\<rparr>]
       (\<lambda>r. None)
       [Main, Main, Main, Main, Main, Main, Main, Main, Feeder, Feeder, Reader 0,
         Reader 0, Reader 0, Reader 0, Proc 0, Proc 0, Proc 0, Reader 0, Sentinel,
         Sentinel, Proc 0, Main]"
  have "map_option mainpc ?run = Some (M_Returned 1 0)"
    by code_simp
  then obtain s where run: "?run = Some s" and ret: "mainpc s = M_Returned 1 0"
    by (cases ?run) simp_all
  from results_closed_once_no_leak [OF _ _ run] ret
  have "\<not> panicked s \<and> resultsCloses s = 1 \<and> finished s \<and>
       always_returns runtime64 \<lparr>SFTPReaders = 1, Workers = 1, BufferSize = 1\<rparr>
         (mockSFTPClient [''/remote/file_0.bin'' \<mapsto> [120]])
         [\<lparr>RemotePath = ''/remote/file_0.bin'', ID = ''id_0''\<rparr>]
         (\<lambda>r. None)"
    by (simp add: within_limits_def makes_succeed_def makechan_panics_def runtime64_def
        sizeof_FileJob_def sizeof_FileResult_def maxInt32_def)
  with ret show ?thesis
    unfolding run by simp
qed

theorem results_closed_once_counterexample:
  "map_option (\<lambda>s. (panicked s, resultsCloses s, has_returned (mainpc s)))
     (TransferFiles runtime64 \<lparr>SFTPReaders = 1, Workers = 1, BufferSize = - 1\<rparr>
       (mockSFTPClient [''/remote/file_0.bin'' \<mapsto> [120]])
       [\<lparr>RemotePath = ''/remote/file_0.bin'', ID = ''id_0''\<rparr>]
       (\<lambda>r. None)
       []) =
   Some (True, 0, False) \<and>
   \<not> always_returns runtime64 \<lparr>SFTPReaders = 1, Workers = 1, BufferSize = - 1\<rparr>
         (mockSFTPClient [''/remote/file_0.bin'' \<mapsto> [120]])
         [\<lparr>RemotePath = ''/remote/file_0.bin'', ID = ''id_0''\<rparr>]
         (\<lambda>r. None)"
proof
  show "map_option (\<lambda>s. (panicked s, resultsCloses s, has_returned (mainpc s)))
     (TransferFiles runtime64 \<lparr>SFTPReaders = 1, Workers = 1, BufferSize = - 1\<rparr>
       (mockSFTPClient [''/remote/file_0.bin'' \<mapsto> [120]])
       [\<lparr>RemotePath = ''/remote/file_0.bin'', ID = ''id_0''\<rparr>]
       (\<lambda>r. None)
       []) =
   Some (True, 0, False)"
    by code_simp
  have "\<not> makes_succeed runtime64 \<lparr>SFTPReaders = 1, Workers = 1, BufferSize = - 1\<rparr>
      [\<lparr>RemotePath = ''/remote/file_0.bin'', ID = ''id_0''\<rparr>]"
    by (simp add: makes_succeed_def makechan_panics_def runtime64_def
        sizeof_FileJob_def sizeof_FileResult_def)
  then show "\<not> always_returns runtime64 \<lparr>SFTPReaders = 1, Workers = 1, BufferSize = - 1\<rparr>
         (mockSFTPClient [''/remote/file_0.bin'' \<mapsto> [120]])
         [\<lparr>RemotePath = ''/remote/file_0.bin'', ID = ''id_0''\<rparr>]
         (\<lambda>r. None)"
    by (rule make_panics_never_returns)
qed

text \<open>
  C10 (amended). With \<open>SFTPReaders = 0\<close> no fetch worker is ever started and \<open>readWg\<close>
  stays zero, so that the goroutine of lines 74-77 is never blocked: \<open>readWg.Wait()\<close>
  returns at once and \<open>close(resultsChan)\<close> follows. Neither \<open>Open\<close> nor the
  processing function is ever called, and a call that returns returns \<open>(0, 0)\<close>, which
  for a non-empty job list is not the number of jobs. \<open>resultsChan\<close> has been closed by
  the time the call returns when there are process workers (\<open>Workers > 0\<close>); without
  process workers the call can return before the close. The call does return, under
  every scheduler and without a panic, on inputs within the limits of the runtime: both
  calls of \<open>make\<close> succeed, which a negative \<open>BufferSize\<close> excludes, and \<open>Workers\<close>
  is at most \<open>2 ^ 31 - 1\<close>.
\<close>

theorem zero_readers_returns_zero:
  assumes "SFTPReaders cfg = 0" and "jobs \<noteq> []"
    and "TransferFiles rt cfg client jobs processFunc sched = Some s"
  shows "readers s = [] \<and> readWg s = 0 \<and> opened s = [] \<and> processed s = [] \<and>
    (\<forall>t f. mainpc s = M_Returned t f \<longrightarrow>
       t = 0 \<and> f = 0 \<and> sint t + sint f \<noteq> int (length jobs)) \<and>
    (\<not> panicked s \<and> (sentinel s = Some S_Wait \<or> sentinel s = Some S_Close) \<longrightarrow>
       fire client processFunc cfg jobs Sentinel s \<noteq> None) \<and>
    (0 < Workers cfg \<and> has_returned (mainpc s) \<longrightarrow> resultsCloses s = 1) \<and>
    (within_limits rt cfg jobs \<longrightarrow> always_returns rt cfg client jobs processFunc)"
proof -
  from TransferFiles_idle [OF _ assms(3)] assms(1) have I: "idle s"
    by simp
  have 1: "resultsCloses s = 1" if "0 < Workers cfg \<and> has_returned (mainpc s)"
  proof -
    from that obtain t f where r: "mainpc s = M_Returned t f"
      by (cases "mainpc s") simp_all
    from that have "has_returned (mainpc s)"
      by simp
    from returned_results_closed(2) [OF TransferFiles_returned_inv [OF assms(3) this] r] that
    show ?thesis by simp
  qed
  have 2: "fire client processFunc cfg jobs Sentinel s \<noteq> None"
    if "\<not> panicked s \<and> (sentinel s = Some S_Wait \<or> sentinel s = Some S_Close)"
    using idle_sentinel [OF I, of client processFunc cfg jobs] that by blast
  from I assms(2) have "t = 0 \<and> f = 0 \<and> sint t + sint f \<noteq> int (length jobs)"
    if "mainpc s = M_Returned t f" for t f
    using that by (simp add: idle_def)
  with I 1 2 TransferFiles_always_returns show ?thesis
    unfolding idle_def by blast
qed

theorem zero_readers_returns_zero_witness:
  "case TransferFiles runtime64 \<lparr>SFTPReaders = 0, Workers = 1, BufferSize = 1\<rparr>
       (mockSFTPClient [''/remote/file_0.bin'' \<mapsto> [120],
          ''/remote/file_1.bin'' \<mapsto> [120, 120]])
       [\<lparr>RemotePath = ''/remote/file_0.bin'', ID = ''id_0''\<rparr>]
       (\<lambda>r. if Data r = [] then Some ''empty data'' else None)
       [Main, Main, Main, Main, Main, Main, Feeder, Feeder, Sentinel, Sentinel,
         Proc 0, Main] of
     None \<Rightarrow> False
   | Some s \<Rightarrow>
       mainpc s = M_Returned 0 0 \<and> opened s = [] \<and> processed s = []
       \<and> resultsCloses s = 1 \<and>
       always_returns runtime64 \<lparr>SFTPReaders = 0, Workers = 1, BufferSize = 1\<rparr>
         (mockSFTPClient [''/remote/file_0.bin'' \<mapsto> [120],
          ''/remote/file_1.bin'' \<mapsto> [120, 120]])
         [\<lparr>RemotePath = ''/remote/file_0.bin'', ID = ''id_0''\<rparr>]
         (\<lambda>r. if Data r = [] then Some ''empty data'' else None)"
proof -
  let ?run = "TransferFiles runtime64 \<lparr>SFTPReaders = 0, Workers = 1, BufferSize = 1\<rparr>
       (mockSFTPClient [''/remote/file_0.bin'' \<mapsto> [120],
          ''/remote/file_1.bin'' \<mapsto> [120, 120]])
       [\<lparr>RemotePath = ''/remote/file_0.bin'', ID = ''id_0''\<rparr>]
       (\<lambda>r. if Data r = [] then Some ''empty data'' else None)
       [Main, Main, Main, Main, Main, Main, Feeder, Feeder, Sentinel, Sentinel,
         Proc 0, Main]"
  have "map_option (\<lambda>s. has_returned (mainpc s)) ?run = Some True"
    by code_simp
  then obtain s where run: "?run = Some s" and "has_returned (mainpc s)"
    by (cases ?run) simp_all
  then obtain t f where ret: "mainpc s = M_Returned t f"
    by (cases "mainpc s") simp_all
  from zero_readers_returns_zero [OF _ _ run] ret
  have "mainpc s = M_Returned 0 0 \<and> opened s = [] \<and> processed s = []
       \<and> resultsCloses s = 1 \<and>
       always_returns runtime64 \<lparr>SFTPReaders = 0, Workers = 1, BufferSize = 1\<rparr>
         (mockSFTPClient [''/remote/file_0.bin'' \<mapsto> [120],
          ''/remote/file_1.bin'' \<mapsto> [120, 120]])
         [\<lparr>RemotePath = ''/remote/file_0.bin'', ID = ''id_0''\<rparr>]
         (\<lambda>r. if Data r = [] then Some ''empty data'' else None)"
    by (simp add: within_limits_def makes_succeed_def makechan_panics_def runtime64_def
        sizeof_FileJob_def sizeof_FileResult_def maxInt32_def)
  then show ?thesis
    unfolding run by simp
qed

theorem zero_readers_counterexample:
  "map_option (\<lambda>s. (mainpc s, resultsCloses s, sentinel s))
     (TransferFiles runtime64 \<lparr>SFTPReaders = 0, Workers = 0, BufferSize = 1\<rparr>
       (mockSFTPClient [''/remote/file_0.bin'' \<mapsto> [120],
          ''/remote/file_1.bin'' \<mapsto> [120, 120]])
       [\<lparr>RemotePath = ''/remote/file_0.bin'', ID = ''id_0''\<rparr>]
       (\<lambda>r. if Data r = [] then Some ''empty data'' else None)
       [Main, Main, Main, Main, Main]) =
   Some (M_Returned 0 0, 0, Some S_Wait) \<and>
   \<not> always_returns runtime64 \<lparr>SFTPReaders = 0, Workers = 1, BufferSize = - 1\<rparr>
         (mockSFTPClient [''/remote/file_0.bin'' \<mapsto> [120],
          ''/remote/file_1.bin'' \<mapsto> [120, 120]])
         [\<lparr>RemotePath = ''/remote/file_0.bin'', ID = ''id_0''\<rparr>]
         (\<lambda>r. if Data r = [] then Some ''empty data'' else None)"
proof
  show "map_option (\<lambda>s. (mainpc s, resultsCloses s, sentinel s))
     (TransferFiles runtime64 \<lparr>SFTPReaders = 0, Workers = 0, BufferSize = 1\<rparr>
       (mockSFTPClient [''/remote/file_0.bin'' \<mapsto> [120],
          ''/remote/file_1.bin'' \<mapsto> [120, 120]])
       [\<lparr>RemotePath = ''/remote/file_0.bin'', ID = ''id_0''\<rparr>]
       (\<lambda>r. if Data r = [] then Some ''empty data'' else None)
       [Main, Main, Main, Main, Main]) =
   Some (M_Returned 0 0, 0, Some S_Wait)"
    by code_simp
  have "\<not> makes_succeed runtime64 \<lparr>SFTPReaders = 0, Workers = 1, BufferSize = - 1\<rparr>
      [\<lparr>RemotePath = ''/remote/file_0.bin'', ID = ''id_0''\<rparr>]"
    by (simp add: makes_succeed_def makechan_panics_def runtime64_def
        sizeof_FileJob_def sizeof_FileResult_def)
  then show "\<not> always_returns runtime64 \<lparr>SFTPReaders = 0, Workers = 1, BufferSize = - 1\<rparr>
         (mockSFTPClient [''/remote/file_0.bin'' \<mapsto> [120],
          ''/remote/file_1.bin'' \<mapsto> [120, 120]])
         [\<lparr>RemotePath = ''/remote/file_0.bin'', ID = ''id_0''\<rparr>]
         (\<lambda>r. if Data r = [] then Some ''empty data'' else None)"
    by (rule make_panics_never_returns)
qed

end
